theory Spec2Isabelle
  imports Complex_Main "HOL-Library.List_Lexorder"
begin

section \<open>Strings and the character database\<close>

text \<open>
  A Python \<open>str\<close> is a sequence of Unicode code points, so a string of the program is
  a list of code points. \<open>U\<close> turns an ASCII literal into such a list.
\<close>

type_synonym ustr = "nat list"

definition U :: "string \<Rightarrow> ustr" where
  "U s = map of_char s"

text \<open>
  The program reaches the Unicode character database through \<open>unicodedata.normalize\<close>,
  \<open>str.lower\<close>, \<open>str.strip\<close>, \<open>int\<close> and the classes \<open>\s\<close>, \<open>\w\<close>, \<open>\d\<close> of \<open>re\<close>.
  On ASCII these are fixed below as CPython 3 has them. Beyond ASCII they are the fields of
  a record that every function takes as its first argument:
  \<^item> \<open>nfkc_ext s\<close>: \<open>unicodedata.normalize('NFKC', s)\<close> for a string with a non-ASCII character;
  \<^item> \<open>lower_ext s\<close>: \<open>s.lower()\<close> for such a string;
  \<^item> \<open>space_ext c\<close>: whether a non-ASCII code point is whitespace (\<open>str.isspace\<close>, \<open>\s\<close>);
  \<^item> \<open>alnum_ext c\<close>: whether it is alphanumeric (\<open>str.isalnum\<close>, the letters and digits of \<open>\w\<close>);
  \<^item> \<open>digit_ext c\<close>: its value when it is a decimal digit (\<open>\d\<close>, \<open>int\<close>).
\<close>

record ucd =
  nfkc_ext :: "ustr \<Rightarrow> ustr"
  lower_ext :: "ustr \<Rightarrow> ustr"
  space_ext :: "nat \<Rightarrow> bool"
  alnum_ext :: "nat \<Rightarrow> bool"
  digit_ext :: "nat \<Rightarrow> nat option"

definition is_ascii :: "ustr \<Rightarrow> bool" where
  "is_ascii s = list_all (\<lambda>c. c < 128) s"

text \<open>ASCII whitespace of CPython: tab, LF, VT, FF, CR, the separators 0x1C to 0x1F, space.\<close>

definition is_space :: "ucd \<Rightarrow> nat \<Rightarrow> bool" where
  "is_space u c = (if c < 128 then c \<in> {9, 10, 11, 12, 13, 28, 29, 30, 31, 32} else space_ext u c)"

text \<open>A decimal digit has a value from 0 to 9.\<close>

definition digit_val :: "ucd \<Rightarrow> nat \<Rightarrow> nat option" where
  "digit_val u c =
     (if c < 128 then (if 48 \<le> c \<and> c \<le> 57 then Some (c - 48) else None)
      else (case digit_ext u c of None \<Rightarrow> None | Some d \<Rightarrow> if d < 10 then Some d else None))"

definition is_digit :: "ucd \<Rightarrow> nat \<Rightarrow> bool" where
  "is_digit u c = (case digit_val u c of None \<Rightarrow> False | Some d \<Rightarrow> True)"

definition is_alnum :: "ucd \<Rightarrow> nat \<Rightarrow> bool" where
  "is_alnum u c =
     (if c < 128 then (48 \<le> c \<and> c \<le> 57) \<or> (65 \<le> c \<and> c \<le> 90) \<or> (97 \<le> c \<and> c \<le> 122)
      else alnum_ext u c)"

text \<open>The class \<open>\w\<close>: an alphanumeric character or the underscore.\<close>

definition is_word :: "ucd \<Rightarrow> nat \<Rightarrow> bool" where
  "is_word u c = (is_alnum u c \<or> c = 95)"

definition ascii_lower :: "nat \<Rightarrow> nat" where
  "ascii_lower c = (if 65 \<le> c \<and> c \<le> 90 then c + 32 else c)"

definition py_lower :: "ucd \<Rightarrow> ustr \<Rightarrow> ustr" where
  "py_lower u s = (if is_ascii s then map ascii_lower s else lower_ext u s)"

definition nfkc :: "ucd \<Rightarrow> ustr \<Rightarrow> ustr" where
  "nfkc u s = (if is_ascii s then s else nfkc_ext u s)"

definition py_strip :: "ucd \<Rightarrow> ustr \<Rightarrow> ustr" where
  "py_strip u s = rev (dropWhile (is_space u) (rev (dropWhile (is_space u) s)))"

text \<open>\<open>a in b\<close> on strings: \<open>a\<close> occurs in \<open>b\<close> as a contiguous substring.\<close>

fun starts_with :: "ustr \<Rightarrow> ustr \<Rightarrow> bool" where
  "starts_with [] s = True"
| "starts_with (p # ps) [] = False"
| "starts_with (p # ps) (c # cs) = (p = c \<and> starts_with ps cs)"

fun contains :: "ustr \<Rightarrow> ustr \<Rightarrow> bool" where
  "contains p [] = starts_with p []"
| "contains p (c # cs) = (starts_with p (c # cs) \<or> contains p cs)"

text \<open>
  \<open>int(s)\<close> on a string of decimal digits, and the format \<open>{n:02d}\<close>: the decimal digits
  of a number, padded with a zero to two characters. Python's integers are unbounded; the
  interpreter's configurable limit on the length of a decimal conversion is outside the
  model. \<open>py_int\<close> is only applied to what \<open>\d\<close> matched, so no character is skipped.
\<close>

definition py_int :: "ucd \<Rightarrow> ustr \<Rightarrow> nat" where
  "py_int u s = foldl (\<lambda>a d. 10 * a + d) 0 (List.map_filter (digit_val u) s)"

fun show_nat :: "nat \<Rightarrow> ustr" where
  "show_nat n = (if n < 10 then [48 + n] else show_nat (n div 10) @ [48 + n mod 10])"

declare show_nat.simps [simp del]

definition fmt02 :: "nat \<Rightarrow> ustr" where
  "fmt02 n = (if n < 10 then 48 # show_nat n else show_nat n)"

section \<open>Regular expressions\<close>

text \<open>
  The patterns of the program are sequences of four kinds of items: a greedy repetition
  of a character class or character, capturing (\<open>(\d{1,2})\<close>, \<open>(\d+)\<close>) or not (\<open>\s*\<close>),
  a literal, and an optional literal (\<open>(?:s)?\<close>, \<open>s?\<close>). \<open>rx_match\<close> is the backtracking
  matcher of \<open>re\<close> on them: a repetition takes as many characters as it can and gives
  them back one at a time while the rest of the pattern fails; an optional literal is
  tried first with the literal. The result is the list of captured groups.
\<close>

datatype atom = Digit | Space | Chr nat

datatype item = Rep bool atom nat "nat option" | Lit ustr | OptLit ustr

fun atom_ok :: "ucd \<Rightarrow> atom \<Rightarrow> nat \<Rightarrow> bool" where
  "atom_ok u Digit c = is_digit u c"
| "atom_ok u Space c = is_space u c"
| "atom_ok u (Chr d) c = (c = d)"

fun first_some :: "'a option list \<Rightarrow> 'a option" where
  "first_some [] = None"
| "first_some (Some x # xs) = Some x"
| "first_some (None # xs) = first_some xs"

fun rx_match :: "ucd \<Rightarrow> item list \<Rightarrow> ustr \<Rightarrow> ustr list option" where
  "rx_match u [] s = Some []"
| "rx_match u (Lit l # items) s =
     (if starts_with l s then rx_match u items (drop (length l) s) else None)"
| "rx_match u (OptLit l # items) s =
     (case (if starts_with l s then rx_match u items (drop (length l) s) else None) of
        Some c \<Rightarrow> Some c
      | None \<Rightarrow> rx_match u items s)"
| "rx_match u (Rep cap a lo hi # items) s =
     (let n = length (takeWhile (atom_ok u a) s);
          kmax = (case hi of None \<Rightarrow> n | Some h \<Rightarrow> min h n)
      in first_some
           (map (\<lambda>k. map_option (\<lambda>c. if cap then take k s # c else c)
                        (rx_match u items (drop k s)))
                (rev [lo..<Suc kmax])))"

text \<open>\<open>re.match\<close> matches at the start of the string; \<open>re.search\<close> at the leftmost position
  where the pattern matches.\<close>

definition re_match :: "ucd \<Rightarrow> item list \<Rightarrow> ustr \<Rightarrow> ustr list option" where
  "re_match u p s = rx_match u p s"

fun re_search :: "ucd \<Rightarrow> item list \<Rightarrow> ustr \<Rightarrow> ustr list option" where
  "re_search u p [] = rx_match u p []"
| "re_search u p (c # cs) =
     (case rx_match u p (c # cs) of Some g \<Rightarrow> Some g | None \<Rightarrow> re_search u p cs)"

text \<open>The capturing items of a pattern, and what a captured group of an item looks like.\<close>

fun is_cap :: "item \<Rightarrow> bool" where
  "is_cap (Rep cap a lo hi) = cap"
| "is_cap (Lit l) = False"
| "is_cap (OptLit l) = False"

fun cap_fits :: "ucd \<Rightarrow> item \<Rightarrow> ustr \<Rightarrow> bool" where
  "cap_fits u (Rep cap a lo hi) g =
     (lo \<le> length g \<and> (case hi of None \<Rightarrow> True | Some h \<Rightarrow> length g \<le> h) \<and> list_all (atom_ok u a) g)"
| "cap_fits u (Lit l) g = False"
| "cap_fits u (OptLit l) g = False"

section \<open>Cells of a data frame\<close>

text \<open>
  A cell of a pandas column is a missing value (\<open>NaN\<close>, \<open>None\<close>), a number or a string.
  A number is an integer, a finite floating-point number or an infinity (\<open>NInf True\<close> is the
  negative one). Floating-point numbers are read as the real numbers they denote; the
  program does no arithmetic on them.
\<close>

datatype number = NInt int | NFloat real | NInf bool

datatype cell = CNaN | CNum number | CStr ustr

section \<open>Time strings: \<open>format_time_string_for_storage\<close>\<close>

definition pat_hms :: "item list" where
  "pat_hms = [Rep True Digit 1 (Some 2), Lit (U '':''), Rep True Digit 2 (Some 2),
              Lit (U '':''), Rep True Digit 2 (Some 2)]"

definition pat_hm :: "item list" where
  "pat_hm = [Rep True Digit 1 (Some 2), Lit (U '':''), Rep True Digit 2 (Some 2)]"

definition pat_hour_min :: "item list" where
  "pat_hour_min = [Rep True Digit 1 None, Rep False Space 0 None, Lit (U ''hour''), OptLit (U ''s''),
                   Rep False Space 0 None, Rep True Digit 1 None, Rep False Space 0 None,
                   Lit (U ''min''), OptLit (U ''ute''), OptLit (U ''s'')]"

definition pat_min :: "item list" where
  "pat_min = [Rep True Digit 1 None, Rep False Space 0 None, Lit (U ''min''), OptLit (U ''ute''),
              OptLit (U ''s'')]"

definition pat_hour :: "item list" where
  "pat_hour = [Rep True Digit 1 None, Rep False Space 0 None, Lit (U ''hour''), OptLit (U ''s'')]"

definition hms_string :: "nat \<Rightarrow> nat \<Rightarrow> nat \<Rightarrow> ustr" where
  "hms_string h m s = fmt02 h @ U '':'' @ fmt02 m @ U '':'' @ fmt02 s"

text \<open>The duration branch: the total number of seconds of the phrase.\<close>

definition duration_seconds :: "ucd \<Rightarrow> ustr \<Rightarrow> nat" where
  "duration_seconds u t =
     (let total_seconds = 0 in
      case re_search u pat_hour_min t of
        Some (g1 # g2 # gs) \<Rightarrow> py_int u g1 * 3600 + py_int u g2 * 60
      | _ \<Rightarrow>
         (let total_seconds = (case re_search u pat_min t of
                                 Some (g1 # gs) \<Rightarrow> py_int u g1 * 60
                               | _ \<Rightarrow> total_seconds);
              total_seconds = (case re_search u pat_hour t of
                                 Some (g1 # gs) \<Rightarrow> py_int u g1 * 3600
                               | _ \<Rightarrow> total_seconds)
          in total_seconds))"

definition format_time_string_for_storage :: "ucd \<Rightarrow> cell \<Rightarrow> ustr" where
  "format_time_string_for_storage u c =
     (case c of
        CStr t_str \<Rightarrow>
          (let t = py_lower u (py_strip u t_str) in
           case re_match u pat_hms t of
             Some (g1 # g2 # g3 # gs) \<Rightarrow> hms_string (py_int u g1) (py_int u g2) (py_int u g3)
           | _ \<Rightarrow>
              (case re_match u pat_hm t of
                 Some (g1 # g2 # gs) \<Rightarrow> hms_string (py_int u g1) (py_int u g2) 0
               | _ \<Rightarrow>
                  (let total_seconds = duration_seconds u t in
                   if total_seconds > 0
                   then hms_string (total_seconds div 3600) ((total_seconds mod 3600) div 60)
                          (total_seconds mod 60)
                   else U ''00:00:00'')))
      | _ \<Rightarrow> U ''00:00:00'')"

text \<open>A character database with nothing beyond ASCII, for inputs that are ASCII.\<close>

definition ascii_ucd :: ucd where
  "ascii_ucd = \<lparr>nfkc_ext = (\<lambda>s. s), lower_ext = (\<lambda>s. s), space_ext = (\<lambda>c. False),
                alnum_ext = (\<lambda>c. False), digit_ext = (\<lambda>c. None)\<rparr>"

section \<open>Column names: \<open>normalize_column_name\<close>\<close>

text \<open>
  \<open>re.sub(r'\s+', '', s)\<close> deletes every whitespace character, \<open>re.sub(r'[^\w.]', '', s)\<close>
  every character that is neither a word character nor the dot (code point 46), and
  \<open>re.sub(r'[^\w]', '', s)\<close> every character that is not a word character. The test for the
  dot patterns reads the lower-cased original header, not the normalised one.
\<close>

definition normalize_column_name :: "ucd \<Rightarrow> ustr \<Rightarrow> ustr" where
  "normalize_column_name u col_name =
     (let normalized = nfkc u col_name;
          normalized = filter (\<lambda>c. \<not> is_space u c) normalized;
          lower_col_name = py_lower u col_name;
          normalized =
            (if contains (U ''inv.no'') lower_col_name
                \<or> contains (U ''custom payment ref.'') lower_col_name
                \<or> contains (U ''custompaymentref.'') lower_col_name
             then filter (\<lambda>c. is_word u c \<or> c = 46) normalized
             else filter (is_word u) normalized)
      in py_lower u normalized)"

text \<open>
  The contract of the column normaliser in the words of the specification, for comparison
  with the code: (a) Unicode normalisation, (b) strip all whitespace, (c) strip all
  non-alphanumeric characters, keeping the dot when the header matches an invoice-number
  or custom-payment-reference pattern, (d) lower-case. The normalisation of (a) is taken to
  be the one the code calls, and the patterns of (c) to be the three substrings the code
  looks for.
\<close>

definition matches_dot_pattern :: "ucd \<Rightarrow> ustr \<Rightarrow> bool" where
  "matches_dot_pattern u header =
     (contains (U ''inv.no'') (py_lower u header)
      \<or> contains (U ''custom payment ref.'') (py_lower u header)
      \<or> contains (U ''custompaymentref.'') (py_lower u header))"

definition spec_normalize :: "ucd \<Rightarrow> ustr \<Rightarrow> ustr" where
  "spec_normalize u header =
     (let a = nfkc u header;
          b = filter (\<lambda>c. \<not> is_space u c) a;
          c = (if matches_dot_pattern u header
               then filter (\<lambda>c. is_alnum u c \<or> c = 46) b
               else filter (is_alnum u) b)
      in py_lower u c)"

text \<open>What the normaliser keeps of a header, with and without the dot.\<close>

definition keep :: "ucd \<Rightarrow> bool \<Rightarrow> nat \<Rightarrow> bool" where
  "keep u dots c = (\<not> is_space u c \<and> (is_word u c \<or> (dots \<and> c = 46)))"

text \<open>
  Character data for two code points beyond ASCII: U+0130 (LATIN CAPITAL LETTER I WITH DOT
  ABOVE, 304) is a letter whose lower case is the two code points U+0069 U+0307; U+0307
  (COMBINING DOT ABOVE, 775) is a combining mark, which is neither alphanumeric nor
  whitespace. The strings [U+0130] and [U+0069, U+0307] are both in normal form NFKC,
  and lower-casing leaves [U+0069, U+0307] as it is. The record is the character
  database on these two strings.
\<close>

definition dotted_I_ucd :: ucd where
  "dotted_I_ucd =
     \<lparr>nfkc_ext = (\<lambda>s. s),
      lower_ext = (\<lambda>s. concat (map (\<lambda>c. if c = 304 then [105, 775] else [ascii_lower c]) s)),
      space_ext = (\<lambda>c. False),
      alnum_ext = (\<lambda>c. c = 304),
      digit_ext = (\<lambda>c. None)\<rparr>"

text \<open>
  Character data for the Thai block (U+0E00 to U+0E7F, 3584 to 3711): the letters
  U+0E01 to U+0E30, U+0E32, U+0E33 and U+0E40 to U+0E46 and the digits U+0E50 to U+0E59
  are alphanumeric, the vowel signs and tone marks U+0E31, U+0E34 to U+0E3A and U+0E47 to
  U+0E4E are combining marks, and nothing in the block is whitespace or has a case. NFKC
  replaces U+0E33 by U+0E4D U+0E32 and changes nothing else in a string of ASCII and Thai
  characters whose combining marks are in canonical order. The record is the character
  database on such strings.
\<close>

definition thai_ucd :: ucd where
  "thai_ucd =
     \<lparr>nfkc_ext = (\<lambda>s. concat (map (\<lambda>c. if c = 3635 then [3661, 3634] else [c]) s)),
      lower_ext = (\<lambda>s. map ascii_lower s),
      space_ext = (\<lambda>c. False),
      alnum_ext = (\<lambda>c. (3585 \<le> c \<and> c \<le> 3632) \<or> c = 3634 \<or> c = 3635
                        \<or> (3648 \<le> c \<and> c \<le> 3654) \<or> (3664 \<le> c \<and> c \<le> 3673)),
      digit_ext = (\<lambda>c. if 3664 \<le> c \<and> c \<le> 3673 then Some (c - 3664) else None)\<rparr>"

text \<open>
  The dictionary comprehension \<open>{normalize_column_name(col): col for col in df.columns}\<close>:
  a later column replaces an earlier one with the same normalised name.
\<close>

definition normalized_df_columns_map :: "ucd \<Rightarrow> ustr list \<Rightarrow> (ustr \<rightharpoonup> ustr)" where
  "normalized_df_columns_map u cols =
     foldl (\<lambda>m col. m(normalize_column_name u col \<mapsto> col)) Map.empty cols"

section \<open>The column mappings and the column types\<close>

text \<open>
  A column mapping is a Python dictionary from the header expected in the upload to the
  column of the table, in the order of the source. The header of the voucher amount
  continues in Thai; its code points are written out.
\<close>

definition voucher_amount_header :: ustr where
  "voucher_amount_header =
       U ''Voucher Amount '' @ [3617, 3641, 3621, 3588, 3656, 3634] @ U '' Voucher '' @ [3617,
       3637, 3650, 3629, 3585, 3634, 3626, 3607, 3637, 3656, 3592, 3632, 3617, 3634, 3585,
       3585, 3623, 3656, 3634, 3618, 3629, 3604, 3619, 3623, 3617, 3607, 3633, 3657, 3591,
       3610, 3636, 3621] @ U '' '' @ [3626, 3656, 3623, 3609, 3621, 3604, 3607, 3637, 3656,
       3651, 3594, 3657, 3652, 3604, 3657, 3626, 3641, 3591, 3626, 3640, 3604, 3592, 3638,
       3591, 3648, 3611, 3655, 3609, 3618, 3629, 3604, 3619, 3623, 3617, 3586, 3629, 3591,
       3610, 3636, 3621]"

definition BILLS_COLUMN_MAPPING :: "(ustr \<times> ustr) list" where
  "BILLS_COLUMN_MAPPING =
    [(U ''Payment Date'', U ''payment_date''),
     (U ''Payment Time'', U ''payment_time''),
     (U ''Time'', U ''time_col''),
     (U ''Receipt Number'', U ''receipt_number''),
     (U ''POS ID'', U ''pos_id''),
     (U ''INV. No'', U ''inv_no''),
     (U ''Summary Price'', U ''summary_price''),
     (U ''Discount By Item'', U ''discount_by_item''),
     (U ''Subtotal Bill Discount'', U ''subtotal_bill_discount''),
     (U ''Subtotal Summary Price - Discount By Item'', U ''subtotal_summary_price_minus_discount_by_item''),
     (U ''Service charge'', U ''service_charge''),
     (U ''Non VAT'', U ''non_vat''),
     (U ''Ex. VAT'', U ''ex_vat''),
     (U ''Before Vat Subtotal + Service charge'', U ''before_vat_subtotal_plus_service_charge''),
     (U ''VAT'', U ''vat''),
     (voucher_amount_header, U ''voucher_amount_desc''),
     (U ''Voucher Discount'', U ''voucher_discount''),
     (U ''Rouding amount'', U ''rounding_amt''),
     (U ''Delivery Fee'', U ''delivery_fee''),
     (U ''Total (Before Vat + VAT + Rouding amount) - Non-VAT amount'', U ''total_final_bill''),
     (U ''Tips'', U ''tips''),
     (U ''Refund'', U ''refund''),
     (U ''Order Type'', U ''order_type''),
     (U ''Drawer ID'', U ''drawer_id''),
     (U ''Payment Type'', U ''payment_type''),
     (U ''Custom Payment Ref.'', U ''custom_payment_ref''),
     (U ''Channel'', U ''channel''),
     (U ''Table'', U ''table_num''),
     (U ''Seat Amount'', U ''seat_amount''),
     (U ''Customer Name'', U ''customer_name''),
     (U ''Remark'', U ''remark''),
     (U ''Promotion Code'', U ''promotion_code''),
     (U ''Bill open by'', U ''bill_open_by''),
     (U ''Bill close by'', U ''bill_close_by''),
     (U ''Branch'', U ''branch'')]"

definition DETAIL_BILLS_COLUMN_MAPPING :: "(ustr \<times> ustr) list" where
  "DETAIL_BILLS_COLUMN_MAPPING =
    [(U ''Payment Date'', U ''payment_date''),
     (U ''Payment Time'', U ''payment_time''),
     (U ''Receipt Number'', U ''receipt_number''),
     (U ''INV. No'', U ''inv_no''),
     (U ''Drawer ID'', U ''drawer_id''),
     (U ''Menu Code'', U ''menu_code''),
     (U ''Menu Name'', U ''menu_name''),
     (U ''Order Type'', U ''order_type''),
     (U ''Quantity'', U ''quantity''),
     (U ''Price per unit'', U ''price_per_unit''),
     (U ''Summary Price'', U ''summary_price''),
     (U ''Discount By Item'', U ''discount_by_item''),
     (U ''Discount By Item Percent'', U ''discount_by_item_percent''),
     (U ''Discounted Price'', U ''discounted_price''),
     (U ''VATable type'', U ''vatable_type''),
     (U ''Channel'', U ''channel''),
     (U ''Table'', U ''table_num''),
     (U ''Customer Name'', U ''customer_name''),
     (U ''Phone Number'', U ''phone_number''),
     (U ''Payment Type'', U ''payment_type''),
     (U ''Custom Payment Ref.'', U ''custom_payment_ref''),
     (U ''Remark'', U ''remark''),
     (U ''Group'', U ''group_col''),
     (U ''Category'', U ''category''),
     (U ''Bill open by'', U ''bill_open_by''),
     (U ''Bill close by'', U ''bill_close_by''),
     (U ''Branch'', U ''branch''),
     (voucher_amount_header, U ''voucher_amount_desc''),
     (U ''Voucher Discount'', U ''voucher_discount''),
     (U ''Rouding amount'', U ''rounding_amt'')]"

datatype sql_type = REAL | INTEGER | TEXT

definition numeric_cols :: "ustr list" where
  "numeric_cols =
    [U ''summary_price'', U ''discount_by_item'', U ''subtotal_bill_discount'',
     U ''subtotal_summary_price_minus_discount_by_item'', U ''service_charge'',
     U ''non_vat'', U ''ex_vat'', U ''before_vat_subtotal_plus_service_charge'',
     U ''vat'', U ''voucher_amount_desc'', U ''voucher_discount'', U ''rounding_amt'',
     U ''delivery_fee'', U ''total_final_bill'', U ''tips'', U ''quantity'', U ''price_per_unit'',
     U ''discount_by_item_percent'', U ''discounted_price'', U ''refund'']"

definition integer_cols :: "ustr list" where
  "integer_cols = [U ''seat_amount'']"

definition get_sql_type :: "ustr \<Rightarrow> sql_type" where
  "get_sql_type column_name =
     (if column_name \<in> set numeric_cols then REAL
      else if column_name \<in> set integer_cols then INTEGER
      else if column_name \<in> set [U ''payment_date'', U ''payment_time''] then TEXT
      else TEXT)"

section \<open>The basket builder: \<open>get_basket_data\<close>\<close>

text \<open>
  A line item as \<open>get_bill_details_for_analysis\<close> reads it from the table \<open>bill_details\<close>,
  reduced to the two columns the basket builder uses. Both columns are declared
  \<open>TEXT NOT NULL\<close>, so what is read is a string, on which \<open>fillna('').astype(str)\<close> changes
  nothing. A failed read (the \<open>except\<close> branches, which return an empty frame) is \<open>None\<close>.
  The function keeps the rows with a non-empty menu name.
\<close>

record detail =
  receipt_number :: ustr
  menu_name :: ustr

definition get_bill_details_for_analysis :: "detail list option \<Rightarrow> detail list" where
  "get_bill_details_for_analysis stored =
     (case stored of
        None \<Rightarrow> []
      | Some df_details \<Rightarrow>
          if df_details = [] then []
          else filter (\<lambda>d. menu_name d \<noteq> []) df_details)"

text \<open>
  \<open>groupby('receipt_number')\<close> makes one group for each distinct receipt number, in sorted
  order; \<open>list(set(x))\<close> lists the distinct menu names of a group, in an order Python leaves
  open (here that of \<open>remdups\<close>; the encoding below reads the list only as a set).
\<close>

definition transactions_of :: "detail list \<Rightarrow> (ustr \<times> ustr list) list" where
  "transactions_of df_filtered =
     map (\<lambda>r. (r, remdups (map menu_name (filter (\<lambda>d. receipt_number d = r) df_filtered))))
         (sort (remdups (map receipt_number df_filtered)))"

text \<open>
  \<open>TransactionEncoder\<close> of mlxtend: \<open>fit\<close> collects the items of all transactions and sorts
  them into the columns; \<open>transform\<close> makes one row for each transaction, with \<open>True\<close> in the
  columns of its items.
\<close>

definition te_fit :: "ustr list list \<Rightarrow> ustr list" where
  "te_fit X = sort (remdups (concat X))"

definition te_transform :: "ustr list \<Rightarrow> ustr list list \<Rightarrow> bool list list" where
  "te_transform cols X = map (\<lambda>transaction. map (\<lambda>c. c \<in> set transaction) cols) X"

record onehot =
  columns :: "ustr list"
  rows :: "bool list list"

definition empty_frame :: onehot where
  "empty_frame = \<lparr>columns = [], rows = []\<rparr>"

text \<open>\<open>mlxtend\<close> says whether the import of the encoder succeeds.\<close>

definition get_basket_data :: "bool \<Rightarrow> detail list option \<Rightarrow> ustr list option \<Rightarrow> onehot" where
  "get_basket_data mlxtend stored exclude_items =
     (let df_details = get_bill_details_for_analysis stored in
      if df_details = [] then empty_frame
      else
        let exclude_items = (case exclude_items of None \<Rightarrow> [] | Some l \<Rightarrow> l);
            df_filtered = filter (\<lambda>d. menu_name d \<notin> set exclude_items) df_details
        in if df_filtered = [] then empty_frame
           else
             let transactions = transactions_of df_filtered
             in if mlxtend
                then let cols = te_fit (map snd transactions)
                     in \<lparr>columns = cols, rows = te_transform cols (map snd transactions)\<rparr>
                else empty_frame)"

text \<open>The receipts of the transaction rows, and the menu names a receipt contributes.\<close>

definition basket_receipts :: "detail list \<Rightarrow> ustr list \<Rightarrow> ustr list" where
  "basket_receipts stored excluded =
     sort (remdups (map receipt_number
       (filter (\<lambda>d. menu_name d \<noteq> [] \<and> menu_name d \<notin> set excluded) stored)))"

definition receipt_items :: "detail list \<Rightarrow> ustr list \<Rightarrow> ustr \<Rightarrow> ustr set" where
  "receipt_items stored excluded r =
     menu_name ` {d \<in> set stored. receipt_number d = r \<and> menu_name d \<noteq> []
                    \<and> menu_name d \<notin> set excluded}"

definition flagged :: "ustr list \<Rightarrow> bool list \<Rightarrow> ustr list" where
  "flagged cols row = map fst (filter snd (zip cols row))"

section \<open>The pandas library\<close>

text \<open>
  What the program asks of pandas on single values is a parameter of the model, a record
  that the functions take as an argument:
  \<^item> \<open>parse_number s\<close>: the number \<open>pd.to_numeric\<close> reads from the string \<open>s\<close>, if any;
  \<^item> \<open>float_repr x\<close>: the string of a floating-point number (\<open>astype(str)\<close>);
  \<^item> \<open>astype_int x\<close>: the integer of a finite floating-point number (\<open>astype(int)\<close>);
  \<^item> \<open>to_datetime_format fmt s\<close>: \<open>pd.to_datetime(s, format=fmt, errors='coerce')\<close>, with
    \<open>None\<close> for \<open>NaT\<close> and for a \<open>ValueError\<close>;
  \<^item> \<open>to_datetime_generic s\<close>: \<open>pd.to_datetime(s, errors='coerce')\<close>, with \<open>None\<close> for \<open>NaT\<close>.
  Of a timestamp only the calendar date is kept, which is all \<open>strftime('%Y-%m-%d')\<close> prints.
\<close>

record date =
  year :: nat
  month :: nat
  day :: nat

record pandas =
  parse_number :: "ustr \<Rightarrow> number option"
  float_repr :: "real \<Rightarrow> ustr"
  astype_int :: "real \<Rightarrow> int"
  to_datetime_format :: "ustr \<Rightarrow> ustr \<Rightarrow> date option"
  to_datetime_generic :: "ustr \<Rightarrow> date option"

text \<open>\<open>strftime('%Y-%m-%d')\<close>: the year in four digits, month and day in two.\<close>

definition fmt04 :: "nat \<Rightarrow> ustr" where
  "fmt04 n = replicate (4 - length (show_nat n)) 48 @ show_nat n"

definition strftime_ymd :: "date \<Rightarrow> ustr" where
  "strftime_ymd d = fmt04 (year d) @ U ''-'' @ fmt02 (month d) @ U ''-'' @ fmt02 (day d)"

section \<open>Dates: \<open>parse_date_robust_and_format\<close>\<close>

text \<open>
  The loop over the formats stops at the first one that gives a date; after the last one
  the result is that of the last call.
\<close>

fun try_formats :: "pandas \<Rightarrow> ustr list \<Rightarrow> ustr \<Rightarrow> date option" where
  "try_formats lib [] date_str = None"
| "try_formats lib (fmt # fmts) date_str =
     (case to_datetime_format lib fmt date_str of
        Some dt_obj \<Rightarrow> Some dt_obj
      | None \<Rightarrow> try_formats lib fmts date_str)"

definition parse_date_robust_and_format :: "pandas \<Rightarrow> cell \<Rightarrow> ustr" where
  "parse_date_robust_and_format lib c =
     (case c of
        CStr date_str \<Rightarrow>
          (let dt_obj = try_formats lib [U ''%d/%m/%Y'', U ''%Y-%m-%d'', U ''%m/%d/%Y''] date_str;
               dt_obj = (case dt_obj of
                           None \<Rightarrow> to_datetime_generic lib date_str
                         | Some d \<Rightarrow> Some d)
           in case dt_obj of None \<Rightarrow> [] | Some d \<Rightarrow> strftime_ymd d)
      | _ \<Rightarrow> [])"

section \<open>A reference library\<close>







definition show_int :: "int \<Rightarrow> ustr" where
  "show_int i = (if i < 0 then 45 # show_nat (nat (- i)) else show_nat (nat i))"


section \<open>Data frames\<close>

text \<open>
  A data frame has a number of rows and named columns, in order, each a list of cells.
  The two assignments of the importer are \<open>frame.loc[:, name] = series\<close> and
  \<open>frame.loc[:, name] = scalar\<close>. Assigning a series of the upload to a frame without rows
  gives the frame the rows of the series. Assigning a scalar to a new column of a frame
  without rows raises \<open>ValueError\<close> (pandas: cannot set a frame with no defined index and
  a scalar); otherwise the scalar fills the column.
\<close>

datatype error = ValueError | KeyError | SqliteError

record frame =
  nrows :: nat
  fcols :: "(ustr \<times> cell list) list"

definition empty_df :: frame where
  "empty_df = \<lparr>nrows = 0, fcols = []\<rparr>"

definition frame_get :: "frame \<Rightarrow> ustr \<Rightarrow> cell list option" where
  "frame_get fr name = map_of (fcols fr) name"

definition has_col :: "frame \<Rightarrow> ustr \<Rightarrow> bool" where
  "has_col fr name = (name \<in> set (map fst (fcols fr)))"

fun put_col :: "(ustr \<times> cell list) list \<Rightarrow> ustr \<Rightarrow> cell list \<Rightarrow> (ustr \<times> cell list) list" where
  "put_col [] name vals = [(name, vals)]"
| "put_col ((n, v) # cs) name vals =
     (if n = name then (name, vals) # cs else (n, v) # put_col cs name vals)"

definition loc_set_series :: "frame \<Rightarrow> ustr \<Rightarrow> cell list \<Rightarrow> frame" where
  "loc_set_series fr name vals =
     \<lparr>nrows = (if nrows fr = 0 then length vals else nrows fr),
      fcols = put_col (fcols fr) name vals\<rparr>"

definition loc_set_scalar :: "frame \<Rightarrow> ustr \<Rightarrow> cell \<Rightarrow> error + frame" where
  "loc_set_scalar fr name v =
     (if has_col fr name
      then Inr (fr\<lparr>fcols := put_col (fcols fr) name (replicate (nrows fr) v)\<rparr>)
      else if nrows fr = 0 then Inl ValueError
      else Inr (fr\<lparr>fcols := put_col (fcols fr) name (replicate (nrows fr) v)\<rparr>))"

text \<open>A \<open>for\<close> loop over a list that updates a state and stops at the first exception.\<close>

fun for_each :: "('s \<Rightarrow> 'a \<Rightarrow> error + 's) \<Rightarrow> 'a list \<Rightarrow> 's \<Rightarrow> error + 's" where
  "for_each f [] s = Inr s"
| "for_each f (x # xs) s = (case f s x of Inl e \<Rightarrow> Inl e | Inr s' \<Rightarrow> for_each f xs s')"

section \<open>Type coercion\<close>

text \<open>
  \<open>pd.to_numeric(column, errors='coerce')\<close> turns each string into the number it reads or
  into \<open>NaN\<close>; the result is a column of integers when every cell is an integer, and a
  column of floating-point numbers otherwise. \<open>astype(int)\<close> raises on an infinity.
  \<open>astype(str)\<close> turns a missing value into the string \<open>nan\<close> (pandas 1 and 2), after
  which \<open>fillna('')\<close> finds nothing to fill.
\<close>

definition to_num1 :: "pandas \<Rightarrow> cell \<Rightarrow> cell" where
  "to_num1 lib c =
     (case c of
        CStr s \<Rightarrow> (case parse_number lib s of Some n \<Rightarrow> CNum n | None \<Rightarrow> CNaN)
      | _ \<Rightarrow> c)"

fun is_int_cell :: "cell \<Rightarrow> bool" where
  "is_int_cell (CNum (NInt i)) = True"
| "is_int_cell c = False"

fun widen :: "cell \<Rightarrow> cell" where
  "widen (CNum (NInt i)) = CNum (NFloat (of_int i))"
| "widen c = c"

definition to_numeric :: "pandas \<Rightarrow> cell list \<Rightarrow> cell list" where
  "to_numeric lib vals =
     (let xs = map (to_num1 lib) vals in if list_all is_int_cell xs then xs else map widen xs)"

definition fillna :: "cell \<Rightarrow> cell \<Rightarrow> cell" where
  "fillna v c = (case c of CNaN \<Rightarrow> v | _ \<Rightarrow> c)"

fun astype_int_cell :: "pandas \<Rightarrow> cell \<Rightarrow> error + cell" where
  "astype_int_cell lib (CNum (NInt i)) = Inr (CNum (NInt i))"
| "astype_int_cell lib (CNum (NFloat x)) = Inr (CNum (NInt (astype_int lib x)))"
| "astype_int_cell lib (CNum (NInf b)) = Inl ValueError"
| "astype_int_cell lib CNaN = Inl ValueError"
| "astype_int_cell lib (CStr s) = Inl ValueError"

fun all_or_error :: "(error + 'a) list \<Rightarrow> error + 'a list" where
  "all_or_error [] = Inr []"
| "all_or_error (Inl e # xs) = Inl e"
| "all_or_error (Inr x # xs) = (case all_or_error xs of Inl e \<Rightarrow> Inl e | Inr ys \<Rightarrow> Inr (x # ys))"

definition astype_str :: "pandas \<Rightarrow> cell \<Rightarrow> cell" where
  "astype_str lib c =
     CStr (case c of
             CNaN \<Rightarrow> U ''nan''
           | CStr s \<Rightarrow> s
           | CNum (NInt i) \<Rightarrow> show_int i
           | CNum (NFloat x) \<Rightarrow> float_repr lib x
           | CNum (NInf b) \<Rightarrow> (if b then U ''-inf'' else U ''inf''))"

definition coerce_column :: "pandas \<Rightarrow> sql_type \<Rightarrow> cell list \<Rightarrow> error + cell list" where
  "coerce_column lib t vals =
     (case t of
        REAL \<Rightarrow> Inr (map (fillna (CNum (NFloat 0))) (to_numeric lib vals))
      | INTEGER \<Rightarrow>
          all_or_error (map (astype_int_cell lib)
                          (map (fillna (CNum (NInt 0))) (to_numeric lib vals)))
      | TEXT \<Rightarrow> Inr (map (fillna (CStr [])) (map (astype_str lib) vals)))"

section \<open>The importer: the transformation of \<open>insert_data_from_df\<close>\<close>

text \<open>The default of a column that the upload lacks, as the first two loops assign it.\<close>

definition default_cell :: "ustr \<Rightarrow> cell" where
  "default_cell db_col =
     (let sql_type = get_sql_type db_col in
      if db_col \<in> set [U ''receipt_number'', U ''menu_name''] then CStr []
      else if sql_type = REAL then CNum (NFloat 0)
      else if sql_type = INTEGER then CNum (NInt 0)
      else CNaN)"

text \<open>The first loop, over the items of the mapping.\<close>

definition map_column :: "ucd \<Rightarrow> frame \<Rightarrow> frame \<Rightarrow> ustr \<times> ustr \<Rightarrow> error + frame" where
  "map_column u df df_transformed item =
     (let csv_col_key_in_mapping = fst item;
          db_col = snd item;
          normalized_expected_csv_col = normalize_column_name u csv_col_key_in_mapping;
          original_csv_col_name =
            normalized_df_columns_map u (map fst (fcols df)) normalized_expected_csv_col
      in case original_csv_col_name of
           Some name \<Rightarrow>
             (case frame_get df name of
                Some vals \<Rightarrow> Inr (loc_set_series df_transformed db_col vals)
              | None \<Rightarrow> loc_set_scalar df_transformed db_col (default_cell db_col))
         | None \<Rightarrow> loc_set_scalar df_transformed db_col (default_cell db_col))"

text \<open>The second loop: a column of the schema that is still absent gets its default.\<close>

definition ensure_column :: "frame \<Rightarrow> ustr \<Rightarrow> error + frame" where
  "ensure_column df_transformed col =
     (if has_col df_transformed col then Inr df_transformed
      else loc_set_scalar df_transformed col (default_cell col))"

text \<open>The third loop: each column is coerced to its type.\<close>

definition clean_column :: "pandas \<Rightarrow> frame \<Rightarrow> ustr \<Rightarrow> error + frame" where
  "clean_column lib df_transformed col =
     (case frame_get df_transformed col of
        None \<Rightarrow> Inr df_transformed
      | Some vals \<Rightarrow>
          (case coerce_column lib (get_sql_type col) vals of
             Inl e \<Rightarrow> Inl e
           | Inr vals' \<Rightarrow> Inr (loc_set_series df_transformed col vals')))"

text \<open>The repair of the date column and of the time column.\<close>

definition repair_date :: "pandas \<Rightarrow> frame \<Rightarrow> frame" where
  "repair_date lib df_transformed =
     (case frame_get df_transformed (U ''payment_date'') of
        Some vals \<Rightarrow>
          loc_set_series df_transformed (U ''payment_date'')
            (map (\<lambda>c. CStr (parse_date_robust_and_format lib c)) vals)
      | None \<Rightarrow> df_transformed)"

definition repair_time :: "ucd \<Rightarrow> frame \<Rightarrow> error + frame" where
  "repair_time u df_transformed =
     (case frame_get df_transformed (U ''payment_time'') of
        Some vals \<Rightarrow>
          Inr (loc_set_series df_transformed (U ''payment_time'')
                 (map (\<lambda>c. CStr (format_time_string_for_storage u c)) vals))
      | None \<Rightarrow> loc_set_scalar df_transformed (U ''payment_time'') (CStr (U ''00:00:00'')))"

text \<open>The selection of the columns of the schema that exist, and the last loop.\<close>

definition select_columns :: "frame \<Rightarrow> ustr list \<Rightarrow> frame" where
  "select_columns fr names =
     \<lparr>nrows = nrows fr,
      fcols = List.map_filter (\<lambda>c. map_option (Pair c) (frame_get fr c)) names\<rparr>"

definition final_default :: "ustr \<Rightarrow> cell" where
  "final_default col =
     (case get_sql_type col of
        TEXT \<Rightarrow> CStr []
      | REAL \<Rightarrow> CNum (NFloat 0)
      | INTEGER \<Rightarrow> CNum (NInt 0))"

definition ensure_final :: "frame \<Rightarrow> ustr \<Rightarrow> error + frame" where
  "ensure_final final_df col =
     (if has_col final_df col then Inr final_df
      else loc_set_scalar final_df col (final_default col))"

text \<open>\<open>final_df[db_columns_ordered].values.tolist()\<close>: the rows, in the order of the schema.\<close>

definition columns_in_order :: "frame \<Rightarrow> ustr list \<Rightarrow> error + cell list list" where
  "columns_in_order fr names =
     all_or_error (map (\<lambda>c. case frame_get fr c of None \<Rightarrow> Inl KeyError | Some vals \<Rightarrow> Inr vals) names)"

definition values_tolist :: "frame \<Rightarrow> ustr list \<Rightarrow> error + cell list list" where
  "values_tolist fr names =
     (case columns_in_order fr names of
        Inl e \<Rightarrow> Inl e
      | Inr column_values \<Rightarrow>
          Inr (map (\<lambda>i. map (\<lambda>vals. vals ! i) column_values) [0..<nrows fr]))"

definition transform :: "ucd \<Rightarrow> pandas \<Rightarrow> frame \<Rightarrow> (ustr \<times> ustr) list \<Rightarrow> error + cell list list" where
  "transform u lib df column_mapping =
     (let db_columns_ordered = map snd column_mapping in
      case for_each (map_column u df) column_mapping empty_df of
        Inl e \<Rightarrow> Inl e
      | Inr df1 \<Rightarrow>
      (case for_each ensure_column db_columns_ordered df1 of
        Inl e \<Rightarrow> Inl e
      | Inr df2 \<Rightarrow>
      (case for_each (clean_column lib) db_columns_ordered df2 of
        Inl e \<Rightarrow> Inl e
      | Inr df3 \<Rightarrow>
      (case repair_time u (repair_date lib df3) of
        Inl e \<Rightarrow> Inl e
      | Inr df4 \<Rightarrow>
      (case for_each ensure_final db_columns_ordered (select_columns df4 db_columns_ordered) of
        Inl e \<Rightarrow> Inl e
      | Inr final_df_to_insert \<Rightarrow> values_tolist final_df_to_insert db_columns_ordered)))))"

section \<open>The store\<close>

text \<open>
  The database holds the rows of each table. What SQLite does with a statement is a
  parameter: whether the connection opens, whether the \<open>INSERT\<close> statement for a table and
  its columns compiles (the table exists and has the columns), whether a row is accepted,
  and whether the commit succeeds. A connection holds the rows inserted and not yet
  committed; \<open>commit\<close> writes them to the database, \<open>close\<close> discards them.
\<close>

type_synonym database = "ustr \<Rightarrow> cell list list"

record sqlite =
  connect_ok :: bool
  prepares :: "ustr \<Rightarrow> ustr list \<Rightarrow> bool"
  accepts :: "ustr \<Rightarrow> cell list \<Rightarrow> bool"
  commit_ok :: bool

record connection =
  uncommitted :: "(ustr \<times> cell list) list"

definition sqlite_connect :: "sqlite \<Rightarrow> error + connection" where
  "sqlite_connect sq = (if connect_ok sq then Inr \<lparr>uncommitted = []\<rparr> else Inl SqliteError)"

definition execute_insert :: "sqlite \<Rightarrow> connection \<Rightarrow> ustr \<Rightarrow> cell list \<Rightarrow> error + connection" where
  "execute_insert sq conn table_name row =
     (if accepts sq table_name row
      then Inr (conn\<lparr>uncommitted := uncommitted conn @ [(table_name, row)]\<rparr>)
      else Inl SqliteError)"

fun insert_rows :: "sqlite \<Rightarrow> connection \<Rightarrow> ustr \<Rightarrow> cell list list \<Rightarrow> error option \<times> connection" where
  "insert_rows sq conn table_name [] = (None, conn)"
| "insert_rows sq conn table_name (row # rest) =
     (case execute_insert sq conn table_name row of
        Inl e \<Rightarrow> (Some e, conn)
      | Inr conn' \<Rightarrow> insert_rows sq conn' table_name rest)"

definition executemany ::
  "sqlite \<Rightarrow> connection \<Rightarrow> ustr \<Rightarrow> ustr list \<Rightarrow> cell list list \<Rightarrow> error option \<times> connection" where
  "executemany sq conn table_name column_names seq_of_parameters =
     (if prepares sq table_name column_names then insert_rows sq conn table_name seq_of_parameters
      else (Some SqliteError, conn))"

definition write_rows :: "database \<Rightarrow> (ustr \<times> cell list) list \<Rightarrow> database" where
  "write_rows db pending = foldl (\<lambda>d (t, r). d(t := d t @ [r])) db pending"

definition sqlite_commit :: "sqlite \<Rightarrow> database \<Rightarrow> connection \<Rightarrow> error + database \<times> connection" where
  "sqlite_commit sq db conn =
     (if commit_ok sq then Inr (write_rows db (uncommitted conn), conn\<lparr>uncommitted := []\<rparr>)
      else Inl SqliteError)"

definition sqlite_close :: "database \<Rightarrow> connection \<Rightarrow> database" where
  "sqlite_close db conn = db"

section \<open>The importer: \<open>insert_data_from_df\<close>\<close>

text \<open>
  The result is the returned flag and the database after the call. Every path of the
  source ends in \<open>finally: conn.close()\<close>, except when the connection did not open.
\<close>

definition insert_data_from_df ::
  "ucd \<Rightarrow> pandas \<Rightarrow> sqlite \<Rightarrow> database \<Rightarrow> frame \<Rightarrow> ustr \<Rightarrow> (ustr \<times> ustr) list \<Rightarrow> bool \<times> database" where
  "insert_data_from_df u lib sq db df table_name column_mapping =
     (case sqlite_connect sq of
        Inl e \<Rightarrow> (False, db)
      | Inr conn \<Rightarrow>
          (case transform u lib df column_mapping of
             Inl e \<Rightarrow> (False, sqlite_close db conn)
           | Inr data_to_insert \<Rightarrow>
               (case executemany sq conn table_name (map snd column_mapping) data_to_insert of
                  (Some e, conn') \<Rightarrow> (False, sqlite_close db conn')
                | (None, conn') \<Rightarrow>
                    (case sqlite_commit sq db conn' of
                       Inl e \<Rightarrow> (False, sqlite_close db conn')
                     | Inr (db', conn'') \<Rightarrow> (True, sqlite_close db' conn'')))))"

definition insert_bills_data :: "ucd \<Rightarrow> pandas \<Rightarrow> sqlite \<Rightarrow> database \<Rightarrow> frame \<Rightarrow> bool \<times> database" where
  "insert_bills_data u lib sq db df =
     insert_data_from_df u lib sq db df (U ''bills'') BILLS_COLUMN_MAPPING"

definition insert_bill_details_data ::
  "ucd \<Rightarrow> pandas \<Rightarrow> sqlite \<Rightarrow> database \<Rightarrow> frame \<Rightarrow> bool \<times> database" where
  "insert_bill_details_data u lib sq db df =
     insert_data_from_df u lib sq db df (U ''bill_details'') DETAIL_BILLS_COLUMN_MAPPING"

text \<open>A store in which every statement succeeds.\<close>

definition ok_sqlite :: sqlite where
  "ok_sqlite = \<lparr>connect_ok = True, prepares = (\<lambda>t cs. True), accepts = (\<lambda>t r. True),
                commit_ok = True\<rparr>"

text \<open>
  A column that holds one value in every row of a frame that has rows; what the coercion
  makes of the default of a column; and what is stored for a column that the upload lacks.
\<close>

definition colnames :: "frame \<Rightarrow> ustr set" where
  "colnames fr = fst ` set (fcols fr)"

definition const_col :: "frame \<Rightarrow> ustr \<Rightarrow> cell \<Rightarrow> bool" where
  "const_col fr c v = (0 < nrows fr \<and> frame_get fr c = Some (replicate (nrows fr) v))"

definition coerced_default :: "ustr \<Rightarrow> cell" where
  "coerced_default c =
     (if c \<in> set [U ''receipt_number'', U ''menu_name''] then CStr []
      else case get_sql_type c of
             REAL \<Rightarrow> CNum (NFloat 0)
           | INTEGER \<Rightarrow> CNum (NInt 0)
           | TEXT \<Rightarrow> CStr (U ''nan''))"

definition stored_default :: "ucd \<Rightarrow> pandas \<Rightarrow> ustr \<Rightarrow> cell" where
  "stored_default u lib c =
     (if c = U ''payment_date'' then CStr (parse_date_robust_and_format lib (coerced_default c))
      else if c = U ''payment_time'' then CStr (format_time_string_for_storage u (coerced_default c))
      else coerced_default c)"

text \<open>The value of a column in a row of the list handed to the store.\<close>

definition row_value :: "(ustr \<times> ustr) list \<Rightarrow> cell list \<Rightarrow> ustr \<Rightarrow> cell option" where
  "row_value column_mapping row c = map_of (zip (map snd column_mapping) row) c"

text \<open>A cell that is not an infinity and does not read as one.\<close>

definition finite_cell :: "pandas \<Rightarrow> cell \<Rightarrow> bool" where
  "finite_cell lib c = (case to_num1 lib c of CNum (NInf b) \<Rightarrow> False | _ \<Rightarrow> True)"

text \<open>
  The upload has the header of the first item of the mapping, with at least one row; and
  no cell of a column of the upload that goes to a column of type \<open>INTEGER\<close> is an
  infinity or reads as one.
\<close>

definition first_mapped_has_rows :: "ucd \<Rightarrow> frame \<Rightarrow> (ustr \<times> ustr) list \<Rightarrow> bool" where
  "first_mapped_has_rows u df column_mapping =
     (case column_mapping of
        [] \<Rightarrow> False
      | item # rest \<Rightarrow>
          (case normalized_df_columns_map u (map fst (fcols df)) (normalize_column_name u (fst item)) of
             None \<Rightarrow> False
           | Some name \<Rightarrow> (case frame_get df name of None \<Rightarrow> False | Some vals \<Rightarrow> vals \<noteq> [])))"

definition source_finite :: "ucd \<Rightarrow> pandas \<Rightarrow> frame \<Rightarrow> ustr \<times> ustr \<Rightarrow> bool" where
  "source_finite u lib df item =
     (case normalized_df_columns_map u (map fst (fcols df)) (normalize_column_name u (fst item)) of
        None \<Rightarrow> True
      | Some name \<Rightarrow>
          (case frame_get df name of
             None \<Rightarrow> True
           | Some vals \<Rightarrow> list_all (finite_cell lib) vals))"

definition integer_sources_finite :: "ucd \<Rightarrow> pandas \<Rightarrow> frame \<Rightarrow> (ustr \<times> ustr) list \<Rightarrow> bool" where
  "integer_sources_finite u lib df column_mapping =
     list_all (\<lambda>item. get_sql_type (snd item) = INTEGER \<longrightarrow> source_finite u lib df item)
       column_mapping"

text \<open>The same for a frame under construction, whose columns have the names of the table.\<close>

definition integers_finite :: "pandas \<Rightarrow> frame \<Rightarrow> bool" where
  "integers_finite lib fr =
     list_all (\<lambda>col. get_sql_type (fst col) \<noteq> INTEGER \<or> list_all (finite_cell lib) (snd col)) (fcols fr)"

text \<open>An upload of one row that has the payment date and no other column.\<close>

definition upload_date_only :: frame where
  "upload_date_only = \<lparr>nrows = 1, fcols = [(U ''Payment Date'', [CStr (U ''31/01/2024'')])]\<rparr>"

section \<open>Properties of the regular expression matcher and of the number formats\<close>

lemma first_some_Some: "first_some xs = Some y \<Longrightarrow> Some y \<in> set xs"
  by (induction xs rule: first_some.induct) auto

lemma take_takeWhile_all:
  "k \<le> length (takeWhile P s) \<Longrightarrow> list_all P (take k s)"
proof (induction s arbitrary: k)
  case Nil
  then show ?case by simp
next
  case (Cons c s)
  then show ?case by (cases k) (auto split: if_splits)
qed

lemma length_takeWhile_le': "length (takeWhile P s) \<le> length s"
  by (induction s) auto

lemma rx_match_caps:
  "rx_match u p s = Some g \<Longrightarrow> list_all2 (cap_fits u) (filter is_cap p) g"
proof (induction u p s arbitrary: g rule: rx_match.induct)
  case (1 u s)
  then show ?case by simp
next
  case (2 u l items s)
  then show ?case by (auto split: if_splits)
next
  case (3 u l items s)
  then show ?case by (auto split: if_splits option.splits)
next
  case (4 u cap a lo hi items s)
  define n where "n = length (takeWhile (atom_ok u a) s)"
  define kmax where "kmax = (case hi of None \<Rightarrow> n | Some h \<Rightarrow> min h n)"
  from "4.prems" have "Some g \<in> set (map (\<lambda>k. map_option (\<lambda>c. if cap then take k s # c else c)
                        (rx_match u items (drop k s))) (rev [lo..<Suc kmax]))"
    unfolding n_def kmax_def by (auto simp: Let_def dest!: first_some_Some)
  then obtain k where kin: "k \<in> set (rev [lo..<Suc kmax])"
    and eq: "Some g = map_option (\<lambda>c. if cap then take k s # c else c) (rx_match u items (drop k s))"
    by auto
  from eq obtain c where c: "rx_match u items (drop k s) = Some c"
    and g: "g = (if cap then take k s # c else c)"
    by (cases "rx_match u items (drop k s)") auto
  have k: "lo \<le> k" "k \<le> kmax" using kin by auto
  have ih: "list_all2 (cap_fits u) (filter is_cap items) c"
    using "4.IH" kin c unfolding n_def kmax_def by blast
  have kn: "k \<le> n" using k by (auto simp: kmax_def split: option.splits)
  have len: "length (take k s) = k"
    using kn length_takeWhile_le'[of "atom_ok u a" s] by (simp add: n_def)
  have "cap \<Longrightarrow> cap_fits u (Rep cap a lo hi) (take k s)"
    using k kn len take_takeWhile_all[of k "atom_ok u a" s]
    by (auto simp: kmax_def n_def split: option.splits)
  with ih g show ?case by auto
qed


lemma digit_val_lt10: "digit_val u c = Some d \<Longrightarrow> d < 10"
  by (auto simp: digit_val_def split: if_splits option.splits)

lemma foldl_digits_bound:
  "list_all (\<lambda>d. d < 10) ds \<Longrightarrow> foldl (\<lambda>a d. 10 * a + d) (a::nat) ds < (a + 1) * 10 ^ length ds"
proof (induction ds arbitrary: a)
  case Nil
  show ?case by simp
next
  case (Cons d ds)
  then have "foldl (\<lambda>a d. 10 * a + d) (10 * a + d) ds < (10 * a + d + 1) * 10 ^ length ds"
    by simp
  also have "\<dots> \<le> (10 * a + 10) * 10 ^ length ds"
    using Cons.prems by (intro mult_right_mono) simp_all
  finally show ?case by (simp add: algebra_simps)
qed

lemma map_filter_digits: "list_all (\<lambda>d. d < 10) (List.map_filter (digit_val u) g)"
  by (induction g) (auto simp: List.map_filter_def dest: digit_val_lt10)

lemma length_map_filter_le: "length (List.map_filter f g) \<le> length g"
  by (simp add: List.map_filter_def)

lemma py_int_bound: "py_int u g < 10 ^ length g"
proof -
  have "py_int u g < 10 ^ length (List.map_filter (digit_val u) g)"
    using foldl_digits_bound[OF map_filter_digits, of 0 u g] by (simp add: py_int_def)
  also have "\<dots> \<le> 10 ^ length g"
    by (rule power_increasing) (simp_all add: length_map_filter_le)
  finally show ?thesis .
qed

lemma py_int_le2: "length g \<le> 2 \<Longrightarrow> py_int u g < 100"
proof -
  assume "length g \<le> 2"
  then have "(10::nat) ^ length g \<le> 10 ^ 2" by (intro power_increasing) simp_all
  with py_int_bound[of u g] show ?thesis by simp
qed

lemma show_nat_digit: "n < 10 \<Longrightarrow> show_nat n = [48 + n]"
  by (subst show_nat.simps) simp

lemma fmt02_small: "n < 100 \<Longrightarrow> fmt02 n = [48 + n div 10, 48 + n mod 10]"
proof (cases "n < 10")
  case True
  then show ?thesis by (simp add: fmt02_def show_nat_digit)
next
  case False
  assume "n < 100"
  then have "n div 10 < 10" by arith
  moreover from False have "show_nat n = show_nat (n div 10) @ [48 + n mod 10]"
    by (subst show_nat.simps) simp
  ultimately  show ?thesis using False by (simp add: fmt02_def show_nat_digit)
qed

lemma hms_string_small:
  "h < 100 \<Longrightarrow> m < 100 \<Longrightarrow> s < 100 \<Longrightarrow>
   hms_string h m s = [48 + h div 10, 48 + h mod 10, 58, 48 + m div 10, 48 + m mod 10, 58,
                       48 + s div 10, 48 + s mod 10]"
  by (simp add: hms_string_def fmt02_small U_def)

lemma show_nat_nonempty: "show_nat n \<noteq> []"
  by (subst show_nat.simps) simp

lemma length_show_nat_ge3: "100 \<le> n \<Longrightarrow> 3 \<le> length (show_nat n)"
proof -
  assume n: "100 \<le> n"
  have 1: "show_nat n = show_nat (n div 10) @ [48 + n mod 10]"
    using n by (subst show_nat.simps) simp
  have "\<not> n div 10 < 10" using n by arith
  then have 2: "show_nat (n div 10) = show_nat (n div 10 div 10) @ [48 + n div 10 mod 10]"
    by (subst show_nat.simps) simp
  show ?thesis unfolding 1 2
    using show_nat_nonempty[of "n div 10 div 10"]
    by (cases "show_nat (n div 10 div 10)") simp_all
qed

lemma length_fmt02: "length (fmt02 n) = 2 \<longleftrightarrow> n < 100"
proof (cases "n < 100")
  case True
  then show ?thesis by (simp add: fmt02_small)
next
  case False
  then have "3 \<le> length (show_nat n)" by (intro length_show_nat_ge3) simp
  with False show ?thesis by (simp add: fmt02_def)
qed

lemma length_fmt02_ge2: "2 \<le> length (fmt02 n)"
proof (cases "n < 100")
  case True
  then show ?thesis by (simp add: fmt02_small)
next
  case False
  then have "3 \<le> length (show_nat n)" by (intro length_show_nat_ge3) simp
  with False show ?thesis by (simp add: fmt02_def)
qed

lemma length_hms_string:
  "m < 100 \<Longrightarrow> s < 100 \<Longrightarrow> length (hms_string h m s) = 8 \<longleftrightarrow> h < 100"
  using length_fmt02[of h] by (auto simp: hms_string_def fmt02_small U_def)

lemma re_search_Some: "re_search u p s = Some g \<Longrightarrow> \<exists>s'. rx_match u p s' = Some g"
  by (induction s) (auto split: option.splits)

lemma re_match_hms_shape:
  assumes "re_match u pat_hms t = Some g"
  shows "\<exists>g1 g2 g3. g = [g1, g2, g3] \<and> length g1 \<le> 2 \<and> length g2 \<le> 2 \<and> length g3 \<le> 2"
  using rx_match_caps[OF assms[unfolded re_match_def]]
  by (auto simp: pat_hms_def list_all2_Cons1)

lemma re_match_hm_shape:
  assumes "re_match u pat_hm t = Some g"
  shows "\<exists>g1 g2. g = [g1, g2] \<and> length g1 \<le> 2 \<and> length g2 \<le> 2"
  using rx_match_caps[OF assms[unfolded re_match_def]]
  by (auto simp: pat_hm_def list_all2_Cons1)

lemma re_search_hour_min_shape:
  assumes "re_search u pat_hour_min t = Some g"
  shows "\<exists>g1 g2. g = [g1, g2]"
proof -
  from re_search_Some[OF assms] obtain s' where "rx_match u pat_hour_min s' = Some g" ..
  from rx_match_caps[OF this] show ?thesis
    by (auto simp: pat_hour_min_def list_all2_Cons1)
qed

lemma re_search_min_shape:
  assumes "re_search u pat_min t = Some g"
  shows "\<exists>g1. g = [g1]"
proof -
  from re_search_Some[OF assms] obtain s' where "rx_match u pat_min s' = Some g" ..
  from rx_match_caps[OF this] show ?thesis
    by (auto simp: pat_min_def list_all2_Cons1)
qed

lemma re_search_hour_shape:
  assumes "re_search u pat_hour t = Some g"
  shows "\<exists>g1. g = [g1]"
proof -
  from re_search_Some[OF assms] obtain s' where "rx_match u pat_hour s' = Some g" ..
  from rx_match_caps[OF this] show ?thesis
    by (auto simp: pat_hour_def list_all2_Cons1)
qed

lemma format_time_hms:
  "re_match u pat_hms (py_lower u (py_strip u s)) = Some [g1, g2, g3] \<Longrightarrow>
   format_time_string_for_storage u (CStr s) = hms_string (py_int u g1) (py_int u g2) (py_int u g3)"
  by (simp add: format_time_string_for_storage_def)

lemma format_time_hm:
  "re_match u pat_hms (py_lower u (py_strip u s)) = None \<Longrightarrow>
   re_match u pat_hm (py_lower u (py_strip u s)) = Some [g1, g2] \<Longrightarrow>
   format_time_string_for_storage u (CStr s) = hms_string (py_int u g1) (py_int u g2) 0"
  by (simp add: format_time_string_for_storage_def)

lemma format_time_duration:
  "re_match u pat_hms (py_lower u (py_strip u s)) = None \<Longrightarrow>
   re_match u pat_hm (py_lower u (py_strip u s)) = None \<Longrightarrow>
   format_time_string_for_storage u (CStr s) =
     (let n = duration_seconds u (py_lower u (py_strip u s))
      in if n > 0 then hms_string (n div 3600) ((n mod 3600) div 60) (n mod 60) else U ''00:00:00'')"
  by (simp add: format_time_string_for_storage_def)

lemma format_time_not_str:
  "(case c of CStr s \<Rightarrow> False | _ \<Rightarrow> True) \<Longrightarrow> format_time_string_for_storage u c = U ''00:00:00''"
  by (cases c) (simp_all add: format_time_string_for_storage_def)

lemma duration_hour_min:
  "re_search u pat_hour_min t = Some [g1, g2] \<Longrightarrow>
   duration_seconds u t = py_int u g1 * 3600 + py_int u g2 * 60"
  by (simp add: duration_seconds_def)

lemma duration_min_only:
  "re_search u pat_hour_min t = None \<Longrightarrow> re_search u pat_min t = Some [g1] \<Longrightarrow>
   re_search u pat_hour t = None \<Longrightarrow> duration_seconds u t = py_int u g1 * 60"
  by (simp add: duration_seconds_def)

lemma duration_hour:
  "re_search u pat_hour_min t = None \<Longrightarrow> re_search u pat_hour t = Some [g1] \<Longrightarrow>
   duration_seconds u t = py_int u g1 * 3600"
  by (simp add: duration_seconds_def split: option.splits list.splits)

lemma duration_none:
  "re_search u pat_hour_min t = None \<Longrightarrow> re_search u pat_min t = None \<Longrightarrow>
   re_search u pat_hour t = None \<Longrightarrow> duration_seconds u t = 0"
  by (simp add: duration_seconds_def)

lemma zero_time: "U ''00:00:00'' = hms_string 0 0 0"
  by (simp add: hms_string_def fmt02_def U_def show_nat_digit)

lemma format_time_shape:
  "\<exists>h m s. format_time_string_for_storage u c = hms_string h m s \<and> m < 100 \<and> s < 100 \<and>
     (h < 100 \<or> (case c of CStr t \<Rightarrow> 360000 \<le> duration_seconds u (py_lower u (py_strip u t)) | _ \<Rightarrow> False))"
proof (cases c)
  case (CStr t0)
  define t where "t = py_lower u (py_strip u t0)"
  show ?thesis
  proof (cases "re_match u pat_hms t")
    case (Some g)
    from re_match_hms_shape[OF Some] obtain g1 g2 g3 where
      g: "g = [g1, g2, g3]" "length g1 \<le> 2" "length g2 \<le> 2" "length g3 \<le> 2" by blast
    have "format_time_string_for_storage u c = hms_string (py_int u g1) (py_int u g2) (py_int u g3)"
      using Some g(1) format_time_hms[of u t0 g1 g2 g3] by (simp add: CStr t_def)
    with g py_int_le2 show ?thesis by blast
  next
    case None
    note n1 = None
    show ?thesis
    proof (cases "re_match u pat_hm t")
      case (Some g)
      from re_match_hm_shape[OF Some] obtain g1 g2 where
        g: "g = [g1, g2]" "length g1 \<le> 2" "length g2 \<le> 2" by blast
      have "format_time_string_for_storage u c = hms_string (py_int u g1) (py_int u g2) 0"
        using Some n1 g(1) format_time_hm[of u t0 g1 g2] by (simp add: CStr t_def)
      moreover have "py_int u g1 < 100" "py_int u g2 < 100" using g py_int_le2 by blast+
      ultimately show ?thesis by (intro exI[of _ "py_int u g1"] exI[of _ "py_int u g2"] exI[of _ 0]) simp
    next
      case None
      define n where "n = duration_seconds u t"
      have F: "format_time_string_for_storage u c =
        (if n > 0 then hms_string (n div 3600) ((n mod 3600) div 60) (n mod 60) else U ''00:00:00'')"
        using n1 None format_time_duration[of u t0] by (simp add: CStr t_def n_def Let_def)
      show ?thesis
      proof (cases "n > 0")
        case True
        have "(n mod 3600) div 60 < 100" "n mod 60 < 100" by arith+
        moreover have "n div 3600 < 100 \<or> 360000 \<le> n" by arith
        ultimately show ?thesis using F True
          by (intro exI[of _ "n div 3600"] exI[of _ "(n mod 3600) div 60"] exI[of _ "n mod 60"])
             (auto simp: CStr n_def t_def)
      next
        case False
        then show ?thesis using F zero_time
          by (intro exI[of _ 0]) auto
      qed
    qed
  qed
qed (auto simp: format_time_string_for_storage_def zero_time intro!: exI[of _ 0])

lemma py_strip_id:
  "\<not> is_space u c \<Longrightarrow> \<not> is_space u d \<Longrightarrow> py_strip u (c # xs @ [d]) = c # xs @ [d]"
  by (simp add: py_strip_def)

lemma space_digit: "a < 10 \<Longrightarrow> \<not> is_space u (48 + a)"
  by (simp add: is_space_def)

lemma is_digit_digit: "a < 10 \<Longrightarrow> is_digit u (48 + a)"
  by (simp add: is_digit_def digit_val_def)

lemma digit_val_digit: "a < 10 \<Longrightarrow> digit_val u (48 + a) = Some a"
  by (simp add: digit_val_def)

lemma not_digit_colon: "\<not> is_digit u 58"
  by (simp add: is_digit_def digit_val_def)

lemma py_int_two: "a < 10 \<Longrightarrow> b < 10 \<Longrightarrow> py_int u [48 + a, 48 + b] = 10 * a + b"
  by (simp add: py_int_def List.map_filter_def digit_val_digit)

lemma format_time_on_digits:
  assumes "a < 10" "b < 10" "c < 10" "d < 10" "e < 10" "f < 10"
  shows "format_time_string_for_storage u (CStr [48 + a, 48 + b, 58, 48 + c, 48 + d, 58, 48 + e, 48 + f])
         = [48 + a, 48 + b, 58, 48 + c, 48 + d, 58, 48 + e, 48 + f]"
proof -
  let ?xs = "[48 + a, 48 + b, 58, 48 + c, 48 + d, 58, 48 + e, 48 + f]"
  have strip: "py_strip u ?xs = ?xs"
    using py_strip_id[of u "48 + a" "48 + f" "[48 + b, 58, 48 + c, 48 + d, 58, 48 + e]"]
      space_digit assms by simp
  have lower: "py_lower u ?xs = ?xs"
    using assms by (simp add: py_lower_def is_ascii_def ascii_lower_def)
  have m: "re_match u pat_hms ?xs = Some [[48 + a, 48 + b], [48 + c, 48 + d], [48 + e, 48 + f]]"
    using assms by (simp add: re_match_def pat_hms_def U_def is_digit_digit not_digit_colon)
  have "format_time_string_for_storage u (CStr ?xs) =
      hms_string (10 * a + b) (10 * c + d) (10 * e + f)"
    using format_time_hms[of u ?xs, unfolded strip lower, OF m] assms by (simp add: py_int_two)
  also have "\<dots> = ?xs"
    using assms by (subst hms_string_small) simp_all
  finally show ?thesis .
qed

lemma format_time_fixed:
  assumes "h < 100" "m < 100" "s < 100"
  shows "format_time_string_for_storage u (CStr (hms_string h m s)) = hms_string h m s"
proof -
  have "h div 10 < 10" "h mod 10 < 10" "m div 10 < 10" "m mod 10 < 10" "s div 10 < 10" "s mod 10 < 10"
    using assms by arith+
  then show ?thesis
    unfolding hms_string_small[OF assms] by (rule format_time_on_digits)
qed

text \<open>
  Claim C2, amended: whenever the output is an eight-character \<open>HH:MM:SS\<close> string, feeding
  it back through the function returns the same string; and the output is such a string for
  every input except a duration phrase of 100 hours (360000 seconds) or more.
\<close>

theorem format_time_idempotent_hms:
  "(length (format_time_string_for_storage u c) = 8 \<longrightarrow>
      format_time_string_for_storage u (CStr (format_time_string_for_storage u c))
        = format_time_string_for_storage u c) \<and>
   (length (format_time_string_for_storage u c) = 8 \<or>
      (case c of CStr t \<Rightarrow> 360000 \<le> duration_seconds u (py_lower u (py_strip u t)) | _ \<Rightarrow> False))"
proof -
  from format_time_shape[of u c] obtain h m s where
    F: "format_time_string_for_storage u c = hms_string h m s" and ms: "m < 100" "s < 100" and
    h: "h < 100 \<or> (case c of CStr t \<Rightarrow> 360000 \<le> duration_seconds u (py_lower u (py_strip u t)) | _ \<Rightarrow> False)"
    by blast
  have len: "length (hms_string h m s) = 8 \<longleftrightarrow> h < 100" using ms by (rule length_hms_string)
  show ?thesis
    using F h len format_time_fixed[of h m s u] ms by auto
qed

lemmas time_eval = format_time_string_for_storage_def U_def py_lower_def py_strip_def is_ascii_def
  ascii_lower_def is_space_def re_match_def pat_hms_def pat_hm_def pat_hour_min_def pat_min_def
  pat_hour_def is_digit_def digit_val_def hms_string_def fmt02_def py_int_def duration_seconds_def
  List.map_filter_def Let_def show_nat.simps

lemma render_seconds:
  "(if n > 0 then hms_string (n div 3600) ((n mod 3600) div 60) (n mod 60) else U ''00:00:00'')
   = hms_string (n div 3600) ((n mod 3600) div 60) (n mod 60)"
  by (simp add: zero_time)

lemma format_time_examples:
  "format_time_string_for_storage u (CStr (U ''1 hour 57 min'')) = U ''01:57:00''"
  "format_time_string_for_storage u (CStr (U ''51 min'')) = U ''00:51:00''"
  "format_time_string_for_storage u (CStr (U ''14:05'')) = U ''14:05:00''"
  "format_time_string_for_storage u (CStr (U ''14:05:30'')) = U ''14:05:30''"
  "format_time_string_for_storage u (CStr (U ''half past two'')) = U ''00:00:00''"
  by (simp_all add: time_eval)

section \<open>Claims about \<open>format_time_string_for_storage\<close>\<close>

text \<open>
  Claim C2, as stated, fails. A duration of a hundred hours or more is rendered with an
  hour field of three or more digits, which none of the patterns reads back:
  \<open>"100 hour"\<close> gives \<open>"100:00:00"\<close>, and \<open>"100:00:00"\<close> gives \<open>"00:00:00"\<close>.
\<close>

theorem format_time_not_idempotent:
  "format_time_string_for_storage ascii_ucd (CStr (U ''100 hour'')) = U ''100:00:00'' \<and>
   format_time_string_for_storage ascii_ucd (CStr (U ''100:00:00'')) = U ''00:00:00'' \<and>
   format_time_string_for_storage ascii_ucd
       (CStr (format_time_string_for_storage ascii_ucd (CStr (U ''100 hour''))))
     \<noteq> format_time_string_for_storage ascii_ucd (CStr (U ''100 hour''))"
  by (simp add: time_eval)

text \<open>The amended claim C2 at \<open>"51 min"\<close>, whose output \<open>"00:51:00"\<close> has eight characters.\<close>

theorem format_time_idempotent_hms_witness:
  "length (format_time_string_for_storage ascii_ucd (CStr (U ''51 min''))) = 8 \<and>
   format_time_string_for_storage ascii_ucd
       (CStr (format_time_string_for_storage ascii_ucd (CStr (U ''51 min''))))
     = format_time_string_for_storage ascii_ucd (CStr (U ''51 min''))"
proof -
  have len: "length (format_time_string_for_storage ascii_ucd (CStr (U ''51 min''))) = 8"
    by (simp add: time_eval)
  with format_time_idempotent_hms[of ascii_ucd "CStr (U ''51 min'')"] show ?thesis by blast
qed

text \<open>
  Claim C6: on the stripped, lower-cased input \<open>t\<close> the function tries \<open>HH:MM:SS\<close> first,
  then \<open>HH:MM\<close> with seconds 0, then the duration phrases, whose total of seconds
  (\<open>N hour M min\<close>, else \<open>N min\<close>, else \<open>N hour\<close>) is rendered as hours, minutes and seconds;
  when nothing matches, and for a cell that is not a string, the result is \<open>"00:00:00"\<close>.
  Each pattern either fails or yields exactly its groups, so the cases are exhaustive.
  The five examples of the claim follow.
\<close>

theorem format_time_priority:
  "(let t = py_lower u (py_strip u s); r = format_time_string_for_storage u (CStr s) in
      (\<forall>g1 g2 g3. re_match u pat_hms t = Some [g1, g2, g3] \<longrightarrow>
          r = hms_string (py_int u g1) (py_int u g2) (py_int u g3)) \<and>
      (re_match u pat_hms t = None \<longrightarrow>
         (\<forall>g1 g2. re_match u pat_hm t = Some [g1, g2] \<longrightarrow>
            r = hms_string (py_int u g1) (py_int u g2) 0)) \<and>
      (re_match u pat_hms t = None \<and> re_match u pat_hm t = None \<longrightarrow>
         r = (let n = duration_seconds u t
              in hms_string (n div 3600) ((n mod 3600) div 60) (n mod 60)) \<and>
         (\<forall>g1 g2. re_search u pat_hour_min t = Some [g1, g2] \<longrightarrow>
            duration_seconds u t = py_int u g1 * 3600 + py_int u g2 * 60) \<and>
         (re_search u pat_hour_min t = None \<longrightarrow>
            (\<forall>g1. re_search u pat_min t = Some [g1] \<and> re_search u pat_hour t = None \<longrightarrow>
               duration_seconds u t = py_int u g1 * 60) \<and>
            (\<forall>g1. re_search u pat_min t = None \<and> re_search u pat_hour t = Some [g1] \<longrightarrow>
               duration_seconds u t = py_int u g1 * 3600) \<and>
            (re_search u pat_min t = None \<and> re_search u pat_hour t = None \<longrightarrow>
               r = U ''00:00:00''))) \<and>
      (re_match u pat_hms t = None \<or> (\<exists>g1 g2 g3. re_match u pat_hms t = Some [g1, g2, g3])) \<and>
      (re_match u pat_hm t = None \<or> (\<exists>g1 g2. re_match u pat_hm t = Some [g1, g2])) \<and>
      (re_search u pat_hour_min t = None \<or> (\<exists>g1 g2. re_search u pat_hour_min t = Some [g1, g2])) \<and>
      (re_search u pat_min t = None \<or> (\<exists>g1. re_search u pat_min t = Some [g1])) \<and>
      (re_search u pat_hour t = None \<or> (\<exists>g1. re_search u pat_hour t = Some [g1]))) \<and>
   format_time_string_for_storage u CNaN = U ''00:00:00'' \<and>
   format_time_string_for_storage u (CNum x) = U ''00:00:00'' \<and>
   format_time_string_for_storage u (CStr (U ''1 hour 57 min'')) = U ''01:57:00'' \<and>
   format_time_string_for_storage u (CStr (U ''51 min'')) = U ''00:51:00'' \<and>
   format_time_string_for_storage u (CStr (U ''14:05'')) = U ''14:05:00'' \<and>
   format_time_string_for_storage u (CStr (U ''14:05:30'')) = U ''14:05:30'' \<and>
   format_time_string_for_storage u (CStr (U ''half past two'')) = U ''00:00:00''"
proof -
  define t where "t = py_lower u (py_strip u s)"
  define r where "r = format_time_string_for_storage u (CStr s)"
  have 1: "re_match u pat_hms t = Some [g1, g2, g3] \<Longrightarrow>
          r = hms_string (py_int u g1) (py_int u g2) (py_int u g3)" for g1 g2 g3
    unfolding t_def r_def by (rule format_time_hms)
  have 2: "re_match u pat_hms t = None \<Longrightarrow> re_match u pat_hm t = Some [g1, g2] \<Longrightarrow>
          r = hms_string (py_int u g1) (py_int u g2) 0" for g1 g2
    unfolding t_def r_def by (rule format_time_hm)
  have 3: "re_match u pat_hms t = None \<Longrightarrow> re_match u pat_hm t = None \<Longrightarrow>
          r = (let n = duration_seconds u t in hms_string (n div 3600) ((n mod 3600) div 60) (n mod 60))"
    unfolding t_def r_def using format_time_duration[of u s] by (simp add: Let_def render_seconds)
  have 4: "re_match u pat_hms t = None \<Longrightarrow> re_match u pat_hm t = None \<Longrightarrow>
          re_search u pat_hour_min t = None \<Longrightarrow> re_search u pat_min t = None \<Longrightarrow>
          re_search u pat_hour t = None \<Longrightarrow> r = U ''00:00:00''"
    using 3 duration_none[of u t] by (simp add: zero_time)
  have s1: "re_match u pat_hms t = None \<or> (\<exists>g1 g2 g3. re_match u pat_hms t = Some [g1, g2, g3])"
    using re_match_hms_shape[of u t] by (cases "re_match u pat_hms t") auto
  have s2: "re_match u pat_hm t = None \<or> (\<exists>g1 g2. re_match u pat_hm t = Some [g1, g2])"
    using re_match_hm_shape[of u t] by (cases "re_match u pat_hm t") auto
  have s3: "re_search u pat_hour_min t = None \<or> (\<exists>g1 g2. re_search u pat_hour_min t = Some [g1, g2])"
    using re_search_hour_min_shape[of u t] by (cases "re_search u pat_hour_min t") auto
  have s4: "re_search u pat_min t = None \<or> (\<exists>g1. re_search u pat_min t = Some [g1])"
    using re_search_min_shape[of u t] by (cases "re_search u pat_min t") auto
  have s5: "re_search u pat_hour t = None \<or> (\<exists>g1. re_search u pat_hour t = Some [g1])"
    using re_search_hour_shape[of u t] by (cases "re_search u pat_hour t") auto
  have nonstr: "format_time_string_for_storage u CNaN = U ''00:00:00''"
    "format_time_string_for_storage u (CNum x) = U ''00:00:00''"
    by (simp_all add: format_time_not_str)
  show ?thesis
    unfolding Let_def t_def[symmetric] r_def[symmetric]
    using 1 2 3 4 s1 s2 s3 s4 s5 nonstr format_time_examples[of u]
      duration_hour_min[of u t] duration_min_only[of u t] duration_hour[of u t]
    by (intro conjI allI impI) (simp_all add: Let_def)
qed

text \<open>Claim C6 at \<open>"2:07"\<close>: the first pattern fails, the second yields the groups 2 and 07.\<close>

theorem format_time_priority_witness:
  "re_match ascii_ucd pat_hms (py_lower ascii_ucd (py_strip ascii_ucd (U ''2:07''))) = None \<and>
   re_match ascii_ucd pat_hm (py_lower ascii_ucd (py_strip ascii_ucd (U ''2:07''))) = Some [U ''2'', U ''07''] \<and>
   format_time_string_for_storage ascii_ucd (CStr (U ''2:07'')) = U ''02:07:00''"
proof -
  have a: "re_match ascii_ucd pat_hms (py_lower ascii_ucd (py_strip ascii_ucd (U ''2:07''))) = None"
    by (simp add: time_eval)
  have b: "re_match ascii_ucd pat_hm (py_lower ascii_ucd (py_strip ascii_ucd (U ''2:07'')))
           = Some [U ''2'', U ''07'']"
    by (simp add: time_eval)
  have c: "hms_string (py_int ascii_ucd (U ''2'')) (py_int ascii_ucd (U ''07'')) 0 = U ''02:07:00''"
    by (simp add: time_eval)
  from format_time_priority[of ascii_ucd "U ''2:07''"] a b c show ?thesis
    by (simp add: Let_def)
qed

text \<open>
  Claim C10: when the \<open>N hour M min\<close> pattern does not match but both a minutes phrase and
  an hours phrase are found, the total is the hours alone, and the minutes are discarded;
  \<open>"57 min 1 hour"\<close> gives \<open>"01:00:00"\<close>.
\<close>

theorem format_time_hour_overwrites_min:
  "(re_match u pat_hms (py_lower u (py_strip u s)) = None \<and>
    re_match u pat_hm (py_lower u (py_strip u s)) = None \<and>
    re_search u pat_hour_min (py_lower u (py_strip u s)) = None \<and>
    re_search u pat_min (py_lower u (py_strip u s)) = Some [gm] \<and>
    re_search u pat_hour (py_lower u (py_strip u s)) = Some [gh] \<longrightarrow>
      duration_seconds u (py_lower u (py_strip u s)) = py_int u gh * 3600 \<and>
      format_time_string_for_storage u (CStr s) = hms_string (py_int u gh) 0 0) \<and>
   format_time_string_for_storage u (CStr (U ''57 min 1 hour'')) = U ''01:00:00''"
proof -
  have ex: "format_time_string_for_storage u (CStr (U ''57 min 1 hour'')) = U ''01:00:00''"
    by (simp add: time_eval)
  show ?thesis
    using ex format_time_duration[of u s] duration_hour[of u "py_lower u (py_strip u s)" gh]
    by (auto simp: Let_def render_seconds)
qed

text \<open>Claim C10 at \<open>"57 min 1 hour"\<close>: the minutes phrase finds 57, the hours phrase finds 1.\<close>

theorem format_time_hour_overwrites_min_witness:
  "re_search ascii_ucd pat_min (U ''57 min 1 hour'') = Some [U ''57''] \<and>
   re_search ascii_ucd pat_hour (U ''57 min 1 hour'') = Some [U ''1''] \<and>
   duration_seconds ascii_ucd (U ''57 min 1 hour'') = 3600 \<and>
   format_time_string_for_storage ascii_ucd (CStr (U ''57 min 1 hour'')) = hms_string 1 0 0"
proof -
  have k: "py_lower ascii_ucd (py_strip ascii_ucd (U ''57 min 1 hour'')) = U ''57 min 1 hour''"
    by (simp add: time_eval)
  have a: "re_match ascii_ucd pat_hms (U ''57 min 1 hour'') = None"
    "re_match ascii_ucd pat_hm (U ''57 min 1 hour'') = None"
    "re_search ascii_ucd pat_hour_min (U ''57 min 1 hour'') = None"
    "re_search ascii_ucd pat_min (U ''57 min 1 hour'') = Some [U ''57'']"
    "re_search ascii_ucd pat_hour (U ''57 min 1 hour'') = Some [U ''1'']"
    by (simp_all add: time_eval)
  have i: "py_int ascii_ucd (U ''1'') = 1" by (simp add: time_eval)
  from format_time_hour_overwrites_min[of ascii_ucd "U ''57 min 1 hour''" "U ''57''" "U ''1''"]
  show ?thesis unfolding k using a i by simp
qed

section \<open>Properties of \<open>normalize_column_name\<close>\<close>

lemma starts_with_iff: "starts_with p s \<longleftrightarrow> (\<exists>ys. s = p @ ys)"
  by (induction p s rule: starts_with.induct) auto

lemma contains_iff: "contains p s \<longleftrightarrow> (\<exists>xs ys. s = xs @ p @ ys)"
proof (induction s)
  case Nil
  then show ?case by (auto simp: starts_with_iff)
next
  case (Cons c cs)
  show ?case
  proof
    assume "contains p (c # cs)"
    then consider "starts_with p (c # cs)" | "contains p cs" by auto
    then show "\<exists>xs ys. c # cs = xs @ p @ ys"
    proof cases
      case 1
      then obtain ys where "c # cs = p @ ys" by (auto simp: starts_with_iff)
      then have "c # cs = [] @ p @ ys" by simp
      then show ?thesis by blast
    next
      case 2
      with Cons obtain xs ys where "cs = xs @ p @ ys" by blast
      then have "c # cs = (c # xs) @ p @ ys" by simp
      then show ?thesis by blast
    qed
  next
    assume "\<exists>xs ys. c # cs = xs @ p @ ys"
    then obtain xs ys where e: "c # cs = xs @ p @ ys" by blast
    show "contains p (c # cs)"
    proof (cases xs)
      case Nil
      with e have "starts_with p (c # cs)" by (auto simp: starts_with_iff)
      then show ?thesis by simp
    next
      case (Cons x xs')
      with e have "cs = xs' @ p @ ys" by simp
      with Cons.IH have "contains p cs" by blast
      then show ?thesis by simp
    qed
  qed
qed

lemma contains_filter: "contains p s \<Longrightarrow> contains (filter R p) (filter R s)"
  unfolding contains_iff by (metis filter_append)

lemma contains_map: "contains p s \<Longrightarrow> contains (map f p) (map f s)"
  unfolding contains_iff by (metis map_append)

lemma is_ascii_filter: "is_ascii s \<Longrightarrow> is_ascii (filter P s)"
  by (induction s) (auto simp: is_ascii_def)

lemma ascii_lower_lt: "c < 128 \<Longrightarrow> ascii_lower c < 128"
  by (simp add: ascii_lower_def)

lemma is_ascii_map_lower: "is_ascii s \<Longrightarrow> is_ascii (map ascii_lower s)"
  by (induction s) (auto simp: is_ascii_def ascii_lower_lt)

lemma ascii_lower_idem: "ascii_lower (ascii_lower c) = ascii_lower c"
  by (simp add: ascii_lower_def)

lemma word_lower: "c < 128 \<Longrightarrow> is_word u (ascii_lower c) = is_word u c"
  by (auto simp: is_word_def is_alnum_def ascii_lower_def)

lemma space_lower: "c < 128 \<Longrightarrow> is_space u (ascii_lower c) = is_space u c"
  by (auto simp: is_space_def ascii_lower_def)

lemma dot_lower: "ascii_lower c = 46 \<longleftrightarrow> c = 46"
  by (auto simp: ascii_lower_def)

lemma word_not_space: "c < 128 \<Longrightarrow> is_word u c \<Longrightarrow> \<not> is_space u c"
  by (auto simp: is_word_def is_alnum_def is_space_def)

lemma dot_not_space: "\<not> is_space u 46"
  by (simp add: is_space_def)

lemma dot_not_word: "\<not> is_word u 46"
  by (simp add: is_word_def is_alnum_def)

lemma filter_map_lower:
  assumes "is_ascii s" and "\<And>c. c < 128 \<Longrightarrow> P (ascii_lower c) = P c"
  shows "filter P (map ascii_lower s) = map ascii_lower (filter P s)"
  using assms(1) by (induction s) (auto simp: is_ascii_def assms(2))

lemma no_dot_no_pattern:
  "46 \<notin> set s \<Longrightarrow> \<not> contains (U ''inv.no'') s \<and> \<not> contains (U ''custom payment ref.'') s
      \<and> \<not> contains (U ''custompaymentref.'') s"
  by (auto simp: contains_iff U_def)

lemma keep_lower: "c < 128 \<Longrightarrow> keep u d (ascii_lower c) = keep u d c"
  by (simp add: keep_def word_lower space_lower dot_lower)

lemma normalize_ascii:
  assumes "is_ascii h"
  shows "normalize_column_name u h =
         filter (keep u (matches_dot_pattern u h)) (map ascii_lower h)"
proof -
  have f: "filter (\<lambda>c. \<not> is_space u c \<and> (is_word u c \<or> c = 46)) h = filter (keep u True) h"
    "filter (\<lambda>c. \<not> is_space u c \<and> is_word u c) h = filter (keep u False) h"
    by (auto simp: keep_def intro: filter_cong)
  have a: "is_ascii (filter (keep u d) h)" for d using assms by (rule is_ascii_filter)
  have "normalize_column_name u h = map ascii_lower (filter (keep u (matches_dot_pattern u h)) h)"
    using assms a
    by (simp add: normalize_column_name_def matches_dot_pattern_def nfkc_def py_lower_def Let_def f
        del: contains.simps)
  also have "\<dots> = filter (keep u (matches_dot_pattern u h)) (map ascii_lower h)"
    using filter_map_lower[OF assms, of "keep u (matches_dot_pattern u h)"] keep_lower by simp
  finally show ?thesis .
qed

lemma keep_patterns:
  "filter (keep u True) (U ''inv.no'') = U ''inv.no''"
  "filter (keep u True) (U ''custom payment ref.'') = U ''custompaymentref.''"
  "filter (keep u True) (U ''custompaymentref.'') = U ''custompaymentref.''"
  by (simp_all add: keep_def U_def is_space_def is_word_def is_alnum_def)

lemma normalize_ascii_idempotent:
  assumes "is_ascii h"
  shows "normalize_column_name u (normalize_column_name u h) = normalize_column_name u h"
proof -
  define d where "d = matches_dot_pattern u h"
  define s where "s = map ascii_lower h"
  define k where "k = filter (keep u d) s"
  have k: "normalize_column_name u h = k"
    using normalize_ascii[OF assms] by (simp add: k_def s_def d_def)
  have sa: "is_ascii s" unfolding s_def using assms by (rule is_ascii_map_lower)
  have ka: "is_ascii k" unfolding k_def using sa by (rule is_ascii_filter)
  have low: "map ascii_lower k = k"
  proof -
    have "map ascii_lower s = s" by (simp add: s_def ascii_lower_idem)
    then have "map ascii_lower k = filter (keep u d) (map ascii_lower s)"
      unfolding k_def using filter_map_lower[OF sa, of "keep u d"] keep_lower by simp
    then show ?thesis using \<open>map ascii_lower s = s\<close> by (simp add: k_def)
  qed
  have hl: "py_lower u h = s" using assms by (simp add: py_lower_def s_def)
  have kl: "py_lower u k = k" using ka low by (simp add: py_lower_def)
  have d': "matches_dot_pattern u k = d \<or> (\<not> d \<and> 46 \<notin> set k)"
  proof (cases d)
    case True
    then consider "contains (U ''inv.no'') s" | "contains (U ''custom payment ref.'') s"
      | "contains (U ''custompaymentref.'') s"
      unfolding d_def matches_dot_pattern_def hl by blast
    then have "contains (U ''inv.no'') k \<or> contains (U ''custompaymentref.'') k"
    proof cases
      case 1
      from contains_filter[OF this, of "keep u True"] show ?thesis
        using True by (simp add: k_def keep_patterns)
    next
      case 2
      from contains_filter[OF this, of "keep u True"] show ?thesis
        using True by (simp add: k_def keep_patterns)
    next
      case 3
      from contains_filter[OF this, of "keep u True"] show ?thesis
        using True by (simp add: k_def keep_patterns)
    qed
    then have "matches_dot_pattern u k"
      unfolding matches_dot_pattern_def kl by blast
    with True show ?thesis by simp
  next
    case False
    then have "46 \<notin> set k" by (auto simp: k_def keep_def dot_not_word)
    with False show ?thesis by simp
  qed
  have fk: "filter (keep u (matches_dot_pattern u k)) k = k"
  proof (rule filter_True, rule ballI)
    fix c assume c: "c \<in> set k"
    then have kc: "keep u d c" by (simp add: k_def)
    from d' show "keep u (matches_dot_pattern u k) c"
    proof
      assume "matches_dot_pattern u k = d" with kc show ?thesis by simp
    next
      assume "\<not> d \<and> 46 \<notin> set k"
      with kc c show ?thesis by (auto simp: keep_def)
    qed
  qed
  have "normalize_column_name u k = filter (keep u (matches_dot_pattern u k)) (map ascii_lower k)"
    using ka by (rule normalize_ascii)
  also have "\<dots> = k" by (simp add: low fk)
  finally show ?thesis by (simp add: k)
qed

lemma normalize_refines_spec:
  assumes "95 \<notin> set (nfkc u h)"
  shows "normalize_column_name u h = spec_normalize u h"
proof -
  have "filter (\<lambda>c. is_word u c \<or> c = 46) (filter (\<lambda>c. \<not> is_space u c) (nfkc u h))
        = filter (\<lambda>c. is_alnum u c \<or> c = 46) (filter (\<lambda>c. \<not> is_space u c) (nfkc u h))"
    using assms by (intro filter_cong) (auto simp: is_word_def)
  moreover have "filter (is_word u) (filter (\<lambda>c. \<not> is_space u c) (nfkc u h))
        = filter (is_alnum u) (filter (\<lambda>c. \<not> is_space u c) (nfkc u h))"
    using assms by (intro filter_cong) (auto simp: is_word_def)
  ultimately show ?thesis
    by (simp add: normalize_column_name_def spec_normalize_def matches_dot_pattern_def Let_def
        del: contains.simps)
qed

lemmas norm_eval = normalize_column_name_def spec_normalize_def matches_dot_pattern_def nfkc_def
  py_lower_def is_ascii_def ascii_lower_def is_space_def is_word_def is_alnum_def U_def Let_def

lemma columns_map_snoc:
  "normalized_df_columns_map u (cols @ [c]) =
     (normalized_df_columns_map u cols)(normalize_column_name u c \<mapsto> c)"
  by (simp add: normalized_df_columns_map_def)



lemma columns_map_None:
  "normalized_df_columns_map u cols k = None \<longleftrightarrow> k \<notin> normalize_column_name u ` set cols"
proof (induction cols rule: rev_induct)
  case Nil
  then show ?case by (simp add: normalized_df_columns_map_def)
next
  case (snoc x xs)
  then show ?case by (auto simp: columns_map_snoc)
qed

text \<open>Headers with Thai characters, under the character data of the Thai block.\<close>

lemma contains_concat_map: "contains p s \<Longrightarrow> contains (concat (map f p)) (concat (map f s))"
  unfolding contains_iff by (metis concat_append map_append)

lemma filter_map_inv: "(\<And>c. P (f c) = P c) \<Longrightarrow> filter P (map f s) = map f (filter P s)"
  by (induction s) auto

lemma ascii_lower_ge: "128 \<le> c \<Longrightarrow> ascii_lower c = c"
  by (simp add: ascii_lower_def)

lemma keep_lower_all: "keep thai_ucd d (ascii_lower c) = keep thai_ucd d c"
  by (cases "c < 128") (simp_all add: keep_lower ascii_lower_ge)

lemma thai_lower: "py_lower thai_ucd s = map ascii_lower s"
  by (simp add: py_lower_def thai_ucd_def)

lemma ascii_no_sara_am: "is_ascii s \<Longrightarrow> concat (map (\<lambda>c. if c = 3635 then [3661, 3634] else [c]) s) = s"
  by (induction s) (auto simp: is_ascii_def)

lemma thai_nfkc: "nfkc thai_ucd s = concat (map (\<lambda>c. if c = 3635 then [3661, 3634] else [c]) s)"
  by (simp add: nfkc_def thai_ucd_def ascii_no_sara_am)

lemma expand_lower:
  "map ascii_lower (concat (map (\<lambda>c. if c = 3635 then [3661, 3634] else [c]) (h::nat list)))
   = concat (map (\<lambda>c. if c = 3635 then [3661, 3634] else [c]) (map ascii_lower h))"
  by (induction h) (auto simp: ascii_lower_def)

lemma expand_no_sara_am:
  "3635 \<notin> set (concat (map (\<lambda>c. if c = 3635 then [3661, 3634] else [c]) (h::nat list)))"
  by (induction h) auto

lemma expand_id:
  "3635 \<notin> set k \<Longrightarrow> concat (map (\<lambda>c. if c = 3635 then [3661, 3634] else [c]) k) = (k::nat list)"
  by (induction k) auto

lemma normalize_thai:
  "normalize_column_name thai_ucd h =
     filter (keep thai_ucd (matches_dot_pattern thai_ucd h))
       (concat (map (\<lambda>c. if c = 3635 then [3661, 3634] else [c]) (map ascii_lower h)))"
proof -
  let ?E = "\<lambda>s. concat (map (\<lambda>c. if c = 3635 then [3661, 3634] else [c]) s)"
  have f: "filter (\<lambda>c. \<not> is_space thai_ucd c \<and> (is_word thai_ucd c \<or> c = 46)) (?E h)
             = filter (keep thai_ucd True) (?E h)"
    "filter (\<lambda>c. \<not> is_space thai_ucd c \<and> is_word thai_ucd c) (?E h) = filter (keep thai_ucd False) (?E h)"
    by (auto simp: keep_def intro: filter_cong)
  have "normalize_column_name thai_ucd h
          = map ascii_lower (filter (keep thai_ucd (matches_dot_pattern thai_ucd h)) (?E h))"
    by (simp add: normalize_column_name_def matches_dot_pattern_def thai_nfkc thai_lower Let_def f
        del: contains.simps)
  also have "\<dots> = filter (keep thai_ucd (matches_dot_pattern thai_ucd h)) (map ascii_lower (?E h))"
    using filter_map_inv[of "keep thai_ucd (matches_dot_pattern thai_ucd h)" ascii_lower "?E h"]
      keep_lower_all by simp
  finally show ?thesis by (simp add: expand_lower)
qed

lemma expand_patterns:
  "concat (map (\<lambda>c. if c = 3635 then [3661, 3634] else [c]) (U ''inv.no'')) = U ''inv.no''"
  "concat (map (\<lambda>c. if c = 3635 then [3661, 3634] else [c]) (U ''custom payment ref.''))
     = U ''custom payment ref.''"
  "concat (map (\<lambda>c. if c = 3635 then [3661, 3634] else [c]) (U ''custompaymentref.''))
     = U ''custompaymentref.''"
  by (simp_all add: U_def)

lemma normalize_thai_idempotent:
  "normalize_column_name thai_ucd (normalize_column_name thai_ucd h) = normalize_column_name thai_ucd h"
proof -
  let ?E = "\<lambda>s. concat (map (\<lambda>c. if c = 3635 then [3661, 3634] else [c]) s)"
  define d where "d = matches_dot_pattern thai_ucd h"
  define s where "s = map ascii_lower h"
  define k where "k = filter (keep thai_ucd d) (?E s)"
  have k: "normalize_column_name thai_ucd h = k"
    using normalize_thai[of h] by (simp add: k_def s_def d_def)
  have ns: "3635 \<notin> set k" using expand_no_sara_am[of s] by (auto simp: k_def)
  have Ek: "?E k = k" using ns by (rule expand_id)
  have sl: "map ascii_lower s = s" by (simp add: s_def ascii_lower_idem)
  have low: "map ascii_lower k = k"
  proof -
    have "map ascii_lower k = filter (keep thai_ucd d) (map ascii_lower (?E s))"
      unfolding k_def using filter_map_inv[of "keep thai_ucd d" ascii_lower "?E s"] keep_lower_all
      by simp
    also have "\<dots> = filter (keep thai_ucd d) (?E (map ascii_lower s))" by (simp only: expand_lower)
    finally show ?thesis by (simp add: sl k_def)
  qed
  have d': "matches_dot_pattern thai_ucd k = d \<or> (\<not> d \<and> 46 \<notin> set k)"
  proof (cases d)
    case True
    then consider "contains (U ''inv.no'') s" | "contains (U ''custom payment ref.'') s"
      | "contains (U ''custompaymentref.'') s"
      unfolding d_def matches_dot_pattern_def thai_lower s_def by blast
    then have "contains (U ''inv.no'') k \<or> contains (U ''custompaymentref.'') k"
    proof cases
      case 1
      from contains_filter[OF contains_concat_map[OF this,
            of "\<lambda>c. if c = 3635 then [3661, 3634] else [c]"], of "keep thai_ucd True"]
      show ?thesis
        using True by (simp add: k_def keep_patterns expand_patterns)
    next
      case 2
      from contains_filter[OF contains_concat_map[OF this,
            of "\<lambda>c. if c = 3635 then [3661, 3634] else [c]"], of "keep thai_ucd True"]
      show ?thesis
        using True by (simp add: k_def keep_patterns expand_patterns)
    next
      case 3
      from contains_filter[OF contains_concat_map[OF this,
            of "\<lambda>c. if c = 3635 then [3661, 3634] else [c]"], of "keep thai_ucd True"]
      show ?thesis
        using True by (simp add: k_def keep_patterns expand_patterns)
    qed
    then have "matches_dot_pattern thai_ucd k"
      unfolding matches_dot_pattern_def thai_lower low by blast
    with True show ?thesis by simp
  next
    case False
    then have "46 \<notin> set k" by (auto simp: k_def keep_def dot_not_word)
    with False show ?thesis by simp
  qed
  have fk: "filter (keep thai_ucd (matches_dot_pattern thai_ucd k)) k = k"
  proof (rule filter_True, rule ballI)
    fix c assume c: "c \<in> set k"
    then have kc: "keep thai_ucd d c" by (simp add: k_def)
    from d' show "keep thai_ucd (matches_dot_pattern thai_ucd k) c"
    proof
      assume "matches_dot_pattern thai_ucd k = d" with kc show ?thesis by simp
    next
      assume "\<not> d \<and> 46 \<notin> set k"
      with kc c show ?thesis by (auto simp: keep_def)
    qed
  qed
  have "normalize_column_name thai_ucd k
          = filter (keep thai_ucd (matches_dot_pattern thai_ucd k)) (?E (map ascii_lower k))"
    by (rule normalize_thai)
  also have "\<dots> = k" by (simp only: low Ek fk)
  finally show ?thesis by (simp add: k)
qed

lemma normalize_voucher_header:
  "normalize_column_name thai_ucd voucher_amount_header =
     U ''voucheramount'' @ [3617, 3621, 3588, 3634] @ U ''voucher''
       @ [3617, 3650, 3629, 3585, 3634, 3626, 3607, 3592, 3632, 3617, 3634, 3585, 3585, 3623, 3634,
          3618, 3629, 3604, 3619, 3623, 3617, 3607, 3591, 3610, 3621, 3626, 3623, 3609, 3621, 3604,
          3607, 3651, 3594, 3652, 3604, 3626, 3591, 3626, 3604, 3592, 3591, 3648, 3611, 3609, 3618,
          3629, 3604, 3619, 3623, 3617, 3586, 3629, 3591, 3610, 3621]"
  by (simp add: norm_eval thai_ucd_def voucher_amount_header_def)

section \<open>Claims about \<open>normalize_column_name\<close>\<close>

text \<open>
  Claim C3: the code keeps the underscore, which is not alphanumeric, because the class
  \<open>\w\<close> contains it. The header \<open>Payment_Date\<close> is normalised to \<open>payment_date\<close>, where the
  contract of the claim (and the docstring of the function) gives \<open>paymentdate\<close>, the key
  of \<open>Payment Date\<close>.
\<close>

theorem normalize_keeps_underscore:
  "normalize_column_name u (U ''Payment_Date'') = U ''payment_date'' \<and>
   spec_normalize u (U ''Payment_Date'') = U ''paymentdate'' \<and>
   normalize_column_name u (U ''Payment Date'') = U ''paymentdate''"
  by (simp add: norm_eval)

text \<open>
  Claim C7, as stated, fails: the lower case of U+0130 ends in the combining mark U+0307,
  which the second normalisation strips as a non-word character.
\<close>

theorem normalize_not_idempotent:
  "normalize_column_name dotted_I_ucd [304] = [105, 775] \<and>
   normalize_column_name dotted_I_ucd [105, 775] = [105] \<and>
   normalize_column_name dotted_I_ucd (normalize_column_name dotted_I_ucd [304])
     \<noteq> normalize_column_name dotted_I_ucd [304]"
  by (simp add: norm_eval dotted_I_ucd_def)

text \<open>
  Claim C7, amended: for every header made of ASCII and Thai characters, normalising the
  normalised header yields the same string. For an ASCII header this holds whatever the
  character database says beyond ASCII; with the character data of the Thai block it
  holds for every header.
\<close>

theorem normalize_idempotent_ascii_thai:
  "(is_ascii h \<longrightarrow>
      normalize_column_name u (normalize_column_name u h) = normalize_column_name u h) \<and>
   normalize_column_name thai_ucd (normalize_column_name thai_ucd h)
     = normalize_column_name thai_ucd h"
  using normalize_ascii_idempotent[of h u] normalize_thai_idempotent[of h] by blast

text \<open>
  The amended claim C7 at the header \<open>Custom Payment Ref.\<close>, which keeps its dot, and at
  the header of the voucher amount, a key of both column mappings, which loses its spaces
  and its Thai vowel signs and tone marks.
\<close>

theorem normalize_idempotent_ascii_thai_witness:
  "is_ascii (U ''Custom Payment Ref.'') \<and>
   normalize_column_name ascii_ucd (U ''Custom Payment Ref.'') = U ''custompaymentref.'' \<and>
   normalize_column_name ascii_ucd (normalize_column_name ascii_ucd (U ''Custom Payment Ref.''))
     = normalize_column_name ascii_ucd (U ''Custom Payment Ref.'') \<and>
   \<not> is_ascii voucher_amount_header \<and>
   normalize_column_name thai_ucd (normalize_column_name thai_ucd voucher_amount_header)
     = normalize_column_name thai_ucd voucher_amount_header"
proof -
  have a: "is_ascii (U ''Custom Payment Ref.'')" by (simp add: is_ascii_def U_def)
  have b: "normalize_column_name ascii_ucd (U ''Custom Payment Ref.'') = U ''custompaymentref.''"
    by (simp add: norm_eval)
  have c: "\<not> is_ascii voucher_amount_header"
    by (simp add: is_ascii_def voucher_amount_header_def U_def)
  from a b c normalize_idempotent_ascii_thai[of "U ''Custom Payment Ref.''" ascii_ucd]
    normalize_idempotent_ascii_thai[of voucher_amount_header ascii_ucd]
  show ?thesis by blast
qed



section \<open>Properties of \<open>get_basket_data\<close>\<close>

lemma flagged_map: "flagged cols (map f cols) = filter f cols"
  unfolding flagged_def by (induction cols) auto

lemma basket_eq:
  assumes "kept = filter (\<lambda>d. menu_name d \<noteq> [] \<and> menu_name d \<notin> set excluded) stored"
    and "kept \<noteq> []"
  shows "get_basket_data True (Some stored) (Some excluded) =
           \<lparr>columns = te_fit (map snd (transactions_of kept)),
            rows = te_transform (te_fit (map snd (transactions_of kept))) (map snd (transactions_of kept))\<rparr>"
proof -
  have ne: "stored \<noteq> []" using assms by auto
  have ne2: "filter (\<lambda>d. menu_name d \<noteq> []) stored \<noteq> []"
    using assms by (auto simp: filter_empty_conv)
  show ?thesis
    using ne ne2 assms
    by (simp add: get_basket_data_def get_bill_details_for_analysis_def Let_def)
qed


lemma set_basket_receipts:
  "set (basket_receipts stored excluded) =
     receipt_number ` {d \<in> set stored. menu_name d \<noteq> [] \<and> menu_name d \<notin> set excluded}"
  by (auto simp: basket_receipts_def)

lemma distinct_basket_receipts: "distinct (basket_receipts stored excluded)"
  by (simp add: basket_receipts_def)

lemma sorted_basket_receipts: "sorted (basket_receipts stored excluded)"
  by (simp add: basket_receipts_def)

lemma transactions_nth:
  assumes "kept = filter (\<lambda>d. menu_name d \<noteq> [] \<and> menu_name d \<notin> set excluded) stored"
    and "i < length (basket_receipts stored excluded)"
  shows "set (snd (transactions_of kept ! i))
           = receipt_items stored excluded (basket_receipts stored excluded ! i)"
    and "fst (transactions_of kept ! i) = basket_receipts stored excluded ! i"
  using assms by (auto simp: transactions_of_def basket_receipts_def receipt_items_def)

lemma length_transactions:
  "kept = filter (\<lambda>d. menu_name d \<noteq> [] \<and> menu_name d \<notin> set excluded) stored \<Longrightarrow>
   length (transactions_of kept) = length (basket_receipts stored excluded)"
  by (simp add: transactions_of_def basket_receipts_def)

lemma set_te_fit: "set (te_fit X) = \<Union> (set ` set X)"
  by (simp add: te_fit_def)

lemma distinct_te_fit: "distinct (te_fit X)"
  by (simp add: te_fit_def)

lemma te_transform_nth:
  "i < length X \<Longrightarrow> te_transform cols X ! i = map (\<lambda>c. c \<in> set (X ! i)) cols"
  by (simp add: te_transform_def)

text \<open>
  Claim C8: when something remains after the filters, the matrix has one row for each
  distinct receipt of the remaining line items, in sorted order, and its columns are
  distinct menu names. The row of a receipt has \<open>True\<close> in a column exactly when the menu
  name of the column is on the receipt (with a non-empty name that the caller did not
  exclude), so the menu names flagged in the row are the set of distinct menu names of the
  receipt, each flagged once, however often the item occurs on the bill. Omitting the
  exclusion list is excluding nothing.
\<close>

theorem basket_row_is_set_of_items:
  assumes "filter (\<lambda>d. menu_name d \<noteq> [] \<and> menu_name d \<notin> set excluded) stored \<noteq> []"
  shows "get_basket_data True (Some stored) None = get_basket_data True (Some stored) (Some [])
       \<and> length (rows (get_basket_data True (Some stored) (Some excluded)))
           = length (basket_receipts stored excluded)
       \<and> distinct (basket_receipts stored excluded)
       \<and> set (basket_receipts stored excluded)
           = receipt_number ` {d \<in> set stored. menu_name d \<noteq> []
                                \<and> menu_name d \<notin> set excluded}
       \<and> distinct (columns (get_basket_data True (Some stored) (Some excluded)))
       \<and> (\<forall>i < length (basket_receipts stored excluded).
            length (rows (get_basket_data True (Some stored) (Some excluded)) ! i)
              = length (columns (get_basket_data True (Some stored) (Some excluded)))
          \<and> (\<forall>j < length (columns (get_basket_data True (Some stored) (Some excluded))).
               rows (get_basket_data True (Some stored) (Some excluded)) ! i ! j
                 = (columns (get_basket_data True (Some stored) (Some excluded)) ! j
                      \<in> receipt_items stored excluded (basket_receipts stored excluded ! i)))
          \<and> distinct (flagged (columns (get_basket_data True (Some stored) (Some excluded)))
                         (rows (get_basket_data True (Some stored) (Some excluded)) ! i))
          \<and> set (flagged (columns (get_basket_data True (Some stored) (Some excluded)))
                         (rows (get_basket_data True (Some stored) (Some excluded)) ! i))
              = receipt_items stored excluded (basket_receipts stored excluded ! i))"
proof -
  define kept where
    "kept = filter (\<lambda>d. menu_name d \<noteq> [] \<and> menu_name d \<notin> set excluded) stored"
  define X where "X = map snd (transactions_of kept)"
  define cols where "cols = te_fit X"
  define out where "out = get_basket_data True (Some stored) (Some excluded)"
  have out: "out = \<lparr>columns = cols, rows = te_transform cols X\<rparr>"
    unfolding out_def cols_def X_def using basket_eq[OF kept_def] assms by (simp add: kept_def)
  have lenX: "length X = length (basket_receipts stored excluded)"
    unfolding X_def using length_transactions[OF kept_def] by simp
  have Xi: "set (X ! i) = receipt_items stored excluded (basket_receipts stored excluded ! i)"
    if "i < length (basket_receipts stored excluded)" for i
    using transactions_nth(1)[OF kept_def that] that lenX by (simp add: X_def)
  have dc: "distinct cols" by (simp add: cols_def distinct_te_fit)
  have sub: "receipt_items stored excluded (basket_receipts stored excluded ! i) \<subseteq> set cols"
    if "i < length (basket_receipts stored excluded)" for i
  proof -
    have "X ! i \<in> set X" using that lenX by simp
    then show ?thesis unfolding Xi[OF that, symmetric] cols_def set_te_fit by blast
  qed
  have row: "rows out ! i = map (\<lambda>c. c \<in> receipt_items stored excluded (basket_receipts stored excluded ! i)) cols"
    if "i < length (basket_receipts stored excluded)" for i
    using that lenX by (simp add: out te_transform_nth Xi)
  have fl: "flagged (columns out) (rows out ! i)
      = filter (\<lambda>c. c \<in> receipt_items stored excluded (basket_receipts stored excluded ! i)) cols"
    if "i < length (basket_receipts stored excluded)" for i
    using row[OF that] by (simp add: out flagged_map)
  have 1: "length (rows out) = length (basket_receipts stored excluded)"
    by (simp add: out te_transform_def lenX)
  have 5: "length (rows out ! i) = length (columns out)
      \<and> (\<forall>j < length (columns out). rows out ! i ! j
             = (columns out ! j \<in> receipt_items stored excluded (basket_receipts stored excluded ! i)))
      \<and> distinct (flagged (columns out) (rows out ! i))
      \<and> set (flagged (columns out) (rows out ! i))
          = receipt_items stored excluded (basket_receipts stored excluded ! i)"
    if "i < length (basket_receipts stored excluded)" for i
  proof -
    have a: "length (rows out ! i) = length (columns out)"
      by (simp add: row[OF that]) (simp add: out)
    have b: "\<forall>j < length (columns out). rows out ! i ! j
             = (columns out ! j \<in> receipt_items stored excluded (basket_receipts stored excluded ! i))"
      by (simp add: row[OF that]) (simp add: out)
    have c: "distinct (flagged (columns out) (rows out ! i))"
      unfolding fl[OF that] using dc by simp
    have d: "set (flagged (columns out) (rows out ! i))
          = receipt_items stored excluded (basket_receipts stored excluded ! i)"
      unfolding fl[OF that] using sub[OF that] by auto
    from a b c d show ?thesis by blast
  qed
  have 0: "get_basket_data True (Some stored) None = get_basket_data True (Some stored) (Some [])"
    by (simp add: get_basket_data_def Let_def)
  have 4: "distinct (columns out)" using dc by (simp add: out)
  show ?thesis
    unfolding out_def[symmetric]
    using 0 1 5 distinct_basket_receipts[of stored excluded] set_basket_receipts[of stored excluded] 4
    by blast
qed

lemmas basket_eval = get_basket_data_def get_bill_details_for_analysis_def transactions_of_def
  te_fit_def te_transform_def basket_receipts_def receipt_items_def flagged_def empty_frame_def
  U_def Let_def

text \<open>Receipt R1 has Tea twice, Cake, and Water, which the caller excludes.\<close>

lemma basket_example:
  "get_basket_data True
     (Some [\<lparr>receipt_number = U ''R2'', menu_name = U ''Tea''\<rparr>,
            \<lparr>receipt_number = U ''R1'', menu_name = U ''Tea''\<rparr>,
            \<lparr>receipt_number = U ''R1'', menu_name = U ''Cake''\<rparr>,
            \<lparr>receipt_number = U ''R1'', menu_name = U ''Tea''\<rparr>,
            \<lparr>receipt_number = U ''R1'', menu_name = U ''Water''\<rparr>])
     (Some [U ''Water''])
   = \<lparr>columns = [U ''Cake'', U ''Tea''], rows = [[True, True], [False, True]]\<rparr>"
  by (simp add: basket_eval)

text \<open>Claim C8 at that input: the row of R1 flags Cake and Tea, once each.\<close>

theorem basket_row_is_set_of_items_witness:
  "filter (\<lambda>d. menu_name d \<noteq> [] \<and> menu_name d \<notin> set [U ''Water''])
     [\<lparr>receipt_number = U ''R2'', menu_name = U ''Tea''\<rparr>,
      \<lparr>receipt_number = U ''R1'', menu_name = U ''Tea''\<rparr>,
      \<lparr>receipt_number = U ''R1'', menu_name = U ''Cake''\<rparr>,
      \<lparr>receipt_number = U ''R1'', menu_name = U ''Tea''\<rparr>,
      \<lparr>receipt_number = U ''R1'', menu_name = U ''Water''\<rparr>] \<noteq> [] \<and>
   basket_receipts
     [\<lparr>receipt_number = U ''R2'', menu_name = U ''Tea''\<rparr>,
      \<lparr>receipt_number = U ''R1'', menu_name = U ''Tea''\<rparr>,
      \<lparr>receipt_number = U ''R1'', menu_name = U ''Cake''\<rparr>,
      \<lparr>receipt_number = U ''R1'', menu_name = U ''Tea''\<rparr>,
      \<lparr>receipt_number = U ''R1'', menu_name = U ''Water''\<rparr>] [U ''Water''] = [U ''R1'', U ''R2''] \<and>
   rows (get_basket_data True
     (Some [\<lparr>receipt_number = U ''R2'', menu_name = U ''Tea''\<rparr>,
            \<lparr>receipt_number = U ''R1'', menu_name = U ''Tea''\<rparr>,
            \<lparr>receipt_number = U ''R1'', menu_name = U ''Cake''\<rparr>,
            \<lparr>receipt_number = U ''R1'', menu_name = U ''Tea''\<rparr>,
            \<lparr>receipt_number = U ''R1'', menu_name = U ''Water''\<rparr>])
     (Some [U ''Water''])) ! 0 = [True, True] \<and>
   set (flagged (columns (get_basket_data True
     (Some [\<lparr>receipt_number = U ''R2'', menu_name = U ''Tea''\<rparr>,
            \<lparr>receipt_number = U ''R1'', menu_name = U ''Tea''\<rparr>,
            \<lparr>receipt_number = U ''R1'', menu_name = U ''Cake''\<rparr>,
            \<lparr>receipt_number = U ''R1'', menu_name = U ''Tea''\<rparr>,
            \<lparr>receipt_number = U ''R1'', menu_name = U ''Water''\<rparr>])
     (Some [U ''Water''])))
     (rows (get_basket_data True
     (Some [\<lparr>receipt_number = U ''R2'', menu_name = U ''Tea''\<rparr>,
            \<lparr>receipt_number = U ''R1'', menu_name = U ''Tea''\<rparr>,
            \<lparr>receipt_number = U ''R1'', menu_name = U ''Cake''\<rparr>,
            \<lparr>receipt_number = U ''R1'', menu_name = U ''Tea''\<rparr>,
            \<lparr>receipt_number = U ''R1'', menu_name = U ''Water''\<rparr>])
     (Some [U ''Water''])) ! 0))
   = receipt_items
     [\<lparr>receipt_number = U ''R2'', menu_name = U ''Tea''\<rparr>,
      \<lparr>receipt_number = U ''R1'', menu_name = U ''Tea''\<rparr>,
      \<lparr>receipt_number = U ''R1'', menu_name = U ''Cake''\<rparr>,
      \<lparr>receipt_number = U ''R1'', menu_name = U ''Tea''\<rparr>,
      \<lparr>receipt_number = U ''R1'', menu_name = U ''Water''\<rparr>] [U ''Water''] (U ''R1'')"
proof -
  let ?stored = "[\<lparr>receipt_number = U ''R2'', menu_name = U ''Tea''\<rparr>,
      \<lparr>receipt_number = U ''R1'', menu_name = U ''Tea''\<rparr>,
      \<lparr>receipt_number = U ''R1'', menu_name = U ''Cake''\<rparr>,
      \<lparr>receipt_number = U ''R1'', menu_name = U ''Tea''\<rparr>,
      \<lparr>receipt_number = U ''R1'', menu_name = U ''Water''\<rparr>]"
  have ne: "filter (\<lambda>d. menu_name d \<noteq> [] \<and> menu_name d \<notin> set [U ''Water'']) ?stored \<noteq> []"
    by (simp add: U_def)
  have r: "basket_receipts ?stored [U ''Water''] = [U ''R1'', U ''R2'']"
    by (simp add: basket_eval)
  have row: "rows (get_basket_data True (Some ?stored) (Some [U ''Water''])) ! 0 = [True, True]"
    by (simp add: basket_example)
  from basket_row_is_set_of_items[OF ne] r have
    "set (flagged (columns (get_basket_data True (Some ?stored) (Some [U ''Water''])))
           (rows (get_basket_data True (Some ?stored) (Some [U ''Water''])) ! 0))
     = receipt_items ?stored [U ''Water''] (U ''R1'')"
    by simp
  with ne r row show ?thesis by blast
qed

section \<open>Properties of \<open>parse_date_robust_and_format\<close>\<close>










section \<open>Claims about \<open>parse_date_robust_and_format\<close>\<close>



section \<open>Properties of the store\<close>

lemma insert_rows_uncommitted:
  "insert_rows sq conn t rs = (r, conn') \<Longrightarrow>
   uncommitted conn' = uncommitted conn @ map (Pair t) (takeWhile (accepts sq t) rs) \<and>
   (r = None \<longleftrightarrow> list_all (accepts sq t) rs)"
proof (induction rs arbitrary: conn)
  case Nil
  then show ?case by auto
next
  case (Cons row rest)
  show ?case
  proof (cases "accepts sq t row")
    case True
    with Cons.prems have
      "insert_rows sq (conn\<lparr>uncommitted := uncommitted conn @ [(t, row)]\<rparr>) t rest = (r, conn')"
      by (simp add: execute_insert_def)
    from Cons.IH[OF this] True show ?thesis by simp
  next
    case False
    with Cons.prems show ?thesis by (auto simp: execute_insert_def)
  qed
qed

lemma write_rows_table: "write_rows db (map (Pair t) rs) = db(t := db t @ rs)"
proof (induction rs arbitrary: db)
  case Nil
  then show ?case by (simp add: write_rows_def)
next
  case (Cons r rs)
  have "write_rows db (map (Pair t) (r # rs)) = write_rows (db(t := db t @ [r])) (map (Pair t) rs)"
    by (simp add: write_rows_def)
  also have "\<dots> = (db(t := db t @ [r]))(t := (db(t := db t @ [r])) t @ rs)"
    by (rule Cons.IH)
  finally show ?case by simp
qed

lemma executemany_result:
  "executemany sq \<lparr>uncommitted = []\<rparr> t cs rs = (r, conn') \<Longrightarrow>
   (r = None \<longleftrightarrow> prepares sq t cs \<and> list_all (accepts sq t) rs) \<and>
   (r = None \<longrightarrow> uncommitted conn' = map (Pair t) rs) \<and>
   (prepares sq t cs \<longrightarrow> uncommitted conn' = map (Pair t) (takeWhile (accepts sq t) rs))"
proof (cases "prepares sq t cs")
  case True
  assume "executemany sq \<lparr>uncommitted = []\<rparr> t cs rs = (r, conn')"
  with True have i: "insert_rows sq \<lparr>uncommitted = []\<rparr> t rs = (r, conn')"
    by (simp add: executemany_def)
  from insert_rows_uncommitted[OF i] have
    u: "uncommitted conn' = map (Pair t) (takeWhile (accepts sq t) rs)"
    and n: "r = None \<longleftrightarrow> list_all (accepts sq t) rs"
    by simp_all
  have "uncommitted conn' = map (Pair t) rs" if "r = None"
  proof -
    from that n have "\<forall>x\<in>set rs. accepts sq t x" by (simp add: list_all_iff)
    then have "takeWhile (accepts sq t) rs = rs" by (simp add: takeWhile_eq_all_conv)
    with u show ?thesis by simp
  qed
  with u n True show ?thesis by blast
next
  case False
  assume "executemany sq \<lparr>uncommitted = []\<rparr> t cs rs = (r, conn')"
  with False show ?thesis by (auto simp: executemany_def)
qed

lemma insert_cases:
  "insert_data_from_df u lib sq db df t m =
     (if connect_ok sq \<and> commit_ok sq \<and> prepares sq t (map snd m) \<and>
         (case transform u lib df m of Inl e \<Rightarrow> False | Inr rs \<Rightarrow> list_all (accepts sq t) rs)
      then (True, db(t := db t @ (case transform u lib df m of Inl e \<Rightarrow> [] | Inr rs \<Rightarrow> rs)))
      else (False, db))"
proof (cases "connect_ok sq")
  case False
  then show ?thesis by (simp add: insert_data_from_df_def sqlite_connect_def)
next
  case c: True
  show ?thesis
  proof (cases "transform u lib df m")
    case (Inl e)
    with c show ?thesis by (simp add: insert_data_from_df_def sqlite_connect_def sqlite_close_def)
  next
    case (Inr rs)
    obtain r conn' where e: "executemany sq \<lparr>uncommitted = []\<rparr> t (map snd m) rs = (r, conn')"
      by (cases "executemany sq \<lparr>uncommitted = []\<rparr> t (map snd m) rs") auto
    note x = executemany_result[OF e]
    show ?thesis
    proof (cases r)
      case None
      with x have p: "prepares sq t (map snd m)" "list_all (accepts sq t) rs"
        "uncommitted conn' = map (Pair t) rs" by auto
      show ?thesis
        using c Inr e None p
        by (simp add: insert_data_from_df_def sqlite_connect_def sqlite_close_def sqlite_commit_def
            write_rows_table)
    next
      case (Some err)
      with x have "\<not> (prepares sq t (map snd m) \<and> list_all (accepts sq t) rs)" by auto
      then show ?thesis
        using c Inr e Some
        by (auto simp: insert_data_from_df_def sqlite_connect_def sqlite_close_def)
    qed
  qed
qed

section \<open>Claims about the transaction of \<open>insert_data_from_df\<close>\<close>

text \<open>
  Claim C4: the call returns a Boolean and leaves the database in one of two states. When it
  returns false, the database is as it was before the call, whatever happened: the
  connection did not open, the transformation raised, the statement did not compile, a row
  was refused after others had been inserted (these are in the connection, uncommitted,
  and are discarded when it is closed), or the commit failed. When it returns true, all
  rows of the transformed upload have been appended to the table, and nothing else
  changed. It returns true exactly when every one of these steps succeeds.
\<close>

theorem insert_commits_all_or_nothing:
  "insert_data_from_df u lib sq db df t m = (ok, db') \<Longrightarrow>
   (\<not> ok \<longrightarrow> db' = db) \<and>
   (ok \<longrightarrow> (\<exists>rs. transform u lib df m = Inr rs \<and> db' = db(t := db t @ rs))) \<and>
   (ok \<longleftrightarrow> connect_ok sq \<and> commit_ok sq \<and> prepares sq t (map snd m)
            \<and> (\<exists>rs. transform u lib df m = Inr rs \<and> list_all (accepts sq t) rs)) \<and>
   (\<forall>rs. transform u lib df m = Inr rs \<and> prepares sq t (map snd m) \<longrightarrow>
      uncommitted (snd (executemany sq \<lparr>uncommitted = []\<rparr> t (map snd m) rs))
        = map (Pair t) (takeWhile (accepts sq t) rs))"
proof -
  assume a: "insert_data_from_df u lib sq db df t m = (ok, db')"
  have 4: "uncommitted (snd (executemany sq \<lparr>uncommitted = []\<rparr> t (map snd m) rs))
        = map (Pair t) (takeWhile (accepts sq t) rs)"
    if "prepares sq t (map snd m)" for rs
    using executemany_result[of sq t "map snd m" rs
        "fst (executemany sq \<lparr>uncommitted = []\<rparr> t (map snd m) rs)"
        "snd (executemany sq \<lparr>uncommitted = []\<rparr> t (map snd m) rs)"] that
    by simp
  show ?thesis
  proof (cases "transform u lib df m")
    case (Inl e)
    with a insert_cases[of u lib sq db df t m] show ?thesis by (auto split: if_splits)
  next
    case (Inr rs)
    with a insert_cases[of u lib sq db df t m] 4 show ?thesis by (auto split: if_splits)
  qed
qed

section \<open>Properties of the transformation\<close>

lemma for_each_append:
  "for_each f (xs @ ys) s =
     (case for_each f xs s of Inl e \<Rightarrow> Inl e | Inr s' \<Rightarrow> for_each f ys s')"
  by (induction xs arbitrary: s) (auto split: sum.splits)

lemma for_each_invariant:
  assumes "for_each f xs s = Inr s'" and "P s"
    and step: "\<And>x a b. x \<in> set xs \<Longrightarrow> P a \<Longrightarrow> f a x = Inr b \<Longrightarrow> P b"
  shows "P s'"
proof -
  have "for_each f ys s = Inr s' \<Longrightarrow> P s \<Longrightarrow> set ys \<subseteq> set xs \<Longrightarrow> P s'" for ys s
  proof (induction ys arbitrary: s)
    case Nil
    then show ?case by simp
  next
    case (Cons y ys)
    from Cons.prems(1) obtain s1 where s1: "f s y = Inr s1" and r: "for_each f ys s1 = Inr s'"
      by (auto split: sum.splits)
    have "P s1" using step[OF _ Cons.prems(2) s1] Cons.prems(3) by simp
    from Cons.IH[OF r this] Cons.prems(3) show ?case by simp
  qed
  from this[OF assms(1,2)] show ?thesis by simp
qed

lemma for_each_succeeds:
  assumes "P s"
    and step: "\<And>x a. x \<in> set xs \<Longrightarrow> P a \<Longrightarrow> \<exists>b. f a x = Inr b \<and> P b"
  shows "\<exists>s'. for_each f xs s = Inr s' \<and> P s'"
proof -
  have "P s \<Longrightarrow> set ys \<subseteq> set xs \<Longrightarrow> \<exists>s'. for_each f ys s = Inr s' \<and> P s'" for ys s
  proof (induction ys arbitrary: s)
    case Nil
    then show ?case by simp
  next
    case (Cons y ys)
    from step[of y s] Cons.prems obtain b where b: "f s y = Inr b" "P b" by auto
    from Cons.IH[OF b(2)] Cons.prems(2) obtain s' where "for_each f ys b = Inr s'" "P s'"
      by auto
    with b show ?case by simp
  qed
  from this[OF assms(1)] show ?thesis by simp
qed

lemma map_of_put_same: "map_of (put_col cs n v) n = Some v"
  by (induction cs n v rule: put_col.induct) auto

lemma map_of_put_other: "m \<noteq> n \<Longrightarrow> map_of (put_col cs n v) m = map_of cs m"
  by (induction cs n v rule: put_col.induct) auto

lemma names_put: "fst ` set (put_col cs n v) = insert n (fst ` set cs)"
  by (induction cs n v rule: put_col.induct) auto

lemma frame_get_has: "frame_get fr c = Some vs \<Longrightarrow> has_col fr c"
  unfolding frame_get_def has_col_def by (metis map_of_SomeD set_zip_leftD zip_map_fst_snd)

lemma has_frame_get: "has_col fr c \<Longrightarrow> \<exists>vs. frame_get fr c = Some vs"
  unfolding frame_get_def has_col_def
  by (metis domD domI dom_map_of_conv_image_fst list.set_map)

lemma const_has: "const_col fr c v \<Longrightarrow> has_col fr c"
  by (auto simp: const_col_def dest: frame_get_has)

text \<open>The two assignments and a constant column\<close>

lemma series_other:
  "const_col fr c v \<Longrightarrow> n \<noteq> c \<Longrightarrow> const_col (loc_set_series fr n vals) c v"
  by (simp add: const_col_def loc_set_series_def frame_get_def map_of_put_other)

lemma series_same:
  "0 < nrows fr \<Longrightarrow> const_col (loc_set_series fr c (replicate (nrows fr) v)) c v"
  by (simp add: const_col_def loc_set_series_def frame_get_def map_of_put_same)

lemma scalar_other:
  "const_col fr c v \<Longrightarrow> n \<noteq> c \<Longrightarrow> loc_set_scalar fr n w = Inr fr' \<Longrightarrow> const_col fr' c v"
  by (auto simp: const_col_def loc_set_scalar_def frame_get_def map_of_put_other split: if_splits)

lemma scalar_new:
  "\<not> has_col fr c \<Longrightarrow> loc_set_scalar fr c v = Inr fr' \<Longrightarrow> const_col fr' c v"
  by (auto simp: const_col_def loc_set_scalar_def frame_get_def map_of_put_same split: if_splits)

lemma has_col_names: "has_col fr n \<longleftrightarrow> n \<in> colnames fr"
  by (simp add: has_col_def colnames_def)

lemma names_series: "colnames (loc_set_series fr n vals) = insert n (colnames fr)"
  by (simp add: loc_set_series_def colnames_def names_put)

lemma names_scalar:
  assumes "loc_set_scalar fr n w = Inr fr'"
  shows "colnames fr' = insert n (colnames fr)"
proof -
  from assms have "fr' = fr\<lparr>fcols := put_col (fcols fr) n (replicate (nrows fr) w)\<rparr>"
    by (simp add: loc_set_scalar_def split: if_splits)
  then show ?thesis by (simp add: colnames_def names_put)
qed

text \<open>The first loop\<close>

lemma map_column_names:
  assumes "map_column u df fr item = Inr fr'"
  shows "colnames fr' = insert (snd item) (colnames fr)"
proof -
  from assms consider vals where "fr' = loc_set_series fr (snd item) vals"
    | "loc_set_scalar fr (snd item) (default_cell (snd item)) = Inr fr'"
    by (auto simp: map_column_def Let_def split: option.splits)
  then show ?thesis
    by cases (simp_all add: names_series names_scalar)
qed

lemma map_column_other:
  "const_col fr c v \<Longrightarrow> snd item \<noteq> c \<Longrightarrow> map_column u df fr item = Inr fr' \<Longrightarrow> const_col fr' c v"
  by (auto simp: map_column_def Let_def series_other scalar_other split: option.splits)

lemma map_column_missing:
  "normalized_df_columns_map u (map fst (fcols df)) (normalize_column_name u k) = None \<Longrightarrow>
   map_column u df fr (k, c) = loc_set_scalar fr c (default_cell c)"
  by (simp add: map_column_def Let_def)

lemma first_loop_names:
  assumes "for_each (map_column u df) items fr = Inr fr'"
  shows "colnames fr' = snd ` set items \<union> colnames fr"
  using assms
proof (induction items arbitrary: fr)
  case Nil
  then show ?case by simp
next
  case (Cons item items)
  from Cons.prems obtain fr1 where 1: "map_column u df fr item = Inr fr1"
    and 2: "for_each (map_column u df) items fr1 = Inr fr'"
    by (auto split: sum.splits)
  from Cons.IH[OF 2] map_column_names[OF 1] show ?case by auto
qed

lemma first_loop_default:
  assumes ok: "for_each (map_column u df) column_mapping empty_df = Inr fr"
    and d: "distinct (map snd column_mapping)"
    and i: "(k, c) \<in> set column_mapping"
    and m: "normalized_df_columns_map u (map fst (fcols df)) (normalize_column_name u k) = None"
  shows "const_col fr c (default_cell c)"
proof -
  from i obtain pre post where s: "column_mapping = pre @ (k, c) # post"
    by (meson split_list)
  from d s have np: "c \<notin> snd ` set pre" "c \<notin> snd ` set post" by auto
  from ok s obtain fr1 fr2 where 1: "for_each (map_column u df) pre empty_df = Inr fr1"
    and 2: "map_column u df fr1 (k, c) = Inr fr2"
    and 3: "for_each (map_column u df) post fr2 = Inr fr"
    by (auto simp: for_each_append split: sum.splits)
  from first_loop_names[OF 1] np have "\<not> has_col fr1 c"
    by (simp add: has_col_names) (simp add: colnames_def empty_df_def)
  with 2 m have c2: "const_col fr2 c (default_cell c)"
    by (simp add: map_column_missing scalar_new)
  show ?thesis
  proof (rule for_each_invariant[OF 3, of "\<lambda>fr. const_col fr c (default_cell c)"])
    show "const_col fr2 c (default_cell c)" by (rule c2)
  next
    fix x a b
    assume "x \<in> set post" "const_col a c (default_cell c)" "map_column u df a x = Inr b"
    with np show "const_col b c (default_cell c)"
      using map_column_other[of a c "default_cell c" x u df b] by auto
  qed
qed

text \<open>The second loop\<close>

lemma ensure_column_const:
  "const_col fr c v \<Longrightarrow> ensure_column fr col = Inr fr' \<Longrightarrow> const_col fr' c v"
  by (cases "col = c") (auto simp: ensure_column_def const_has scalar_other split: if_splits)

lemma second_loop_const:
  "for_each ensure_column names fr = Inr fr' \<Longrightarrow> const_col fr c v \<Longrightarrow> const_col fr' c v"
  by (rule for_each_invariant[of ensure_column names fr fr' "\<lambda>fr. const_col fr c v"])
     (auto intro: ensure_column_const)

text \<open>The third loop\<close>

lemma all_or_error_replicate:
  "all_or_error (replicate n (Inr x)) = Inr (replicate n x)"
  by (induction n) auto

lemma special_text:
  "get_sql_type (U ''receipt_number'') = TEXT" "get_sql_type (U ''menu_name'') = TEXT"
  by (simp_all add: get_sql_type_def numeric_cols_def integer_cols_def U_def)

lemma coerce_default:
  "coerce_column lib (get_sql_type c) (replicate n (default_cell c))
     = Inr (replicate n (coerced_default c))"
proof -
  consider "c = U ''receipt_number''" | "c = U ''menu_name''"
    | "c \<noteq> U ''receipt_number''" "c \<noteq> U ''menu_name''" by blast
  then show ?thesis
  proof cases
    case 1
    then show ?thesis
      by (simp add: special_text coerce_column_def default_cell_def coerced_default_def
          astype_str_def fillna_def)
  next
    case 2
    then show ?thesis
      by (simp add: special_text coerce_column_def default_cell_def coerced_default_def
          astype_str_def fillna_def)
  next
    case 3
    show ?thesis
    proof (cases "get_sql_type c")
      case REAL
      have "to_numeric lib (replicate n (CNum (NFloat 0))) = replicate n (CNum (NFloat 0))"
        by (simp add: to_numeric_def to_num1_def Let_def)
      with 3 REAL show ?thesis
        by (simp add: coerce_column_def default_cell_def coerced_default_def fillna_def)
    next
      case INTEGER
      have "to_numeric lib (replicate n (CNum (NInt 0))) = replicate n (CNum (NInt 0))"
        by (simp add: to_numeric_def to_num1_def Let_def list_all_iff)
      with 3 INTEGER show ?thesis
        by (simp add: coerce_column_def default_cell_def coerced_default_def fillna_def
            all_or_error_replicate)
    next
      case TEXT
      with 3 show ?thesis
        by (simp add: coerce_column_def default_cell_def coerced_default_def astype_str_def
            fillna_def)
    qed
  qed
qed

lemma clean_column_other:
  "const_col fr c v \<Longrightarrow> col \<noteq> c \<Longrightarrow> clean_column lib fr col = Inr fr' \<Longrightarrow> const_col fr' c v"
  by (auto simp: clean_column_def series_other split: option.splits sum.splits)

lemma clean_column_default:
  assumes "const_col fr c (default_cell c)" and "clean_column lib fr c = Inr fr'"
  shows "const_col fr' c (coerced_default c)"
proof -
  from assms(1) have g: "frame_get fr c = Some (replicate (nrows fr) (default_cell c))"
    and n: "0 < nrows fr" by (simp_all add: const_col_def)
  from assms(2) g have "fr' = loc_set_series fr c (replicate (nrows fr) (coerced_default c))"
    by (simp add: clean_column_def coerce_default)
  with n show ?thesis by (simp add: series_same)
qed

lemma third_loop_default:
  assumes ok: "for_each (clean_column lib) names fr = Inr fr'"
    and d: "distinct names" and i: "c \<in> set names"
    and c: "const_col fr c (default_cell c)"
  shows "const_col fr' c (coerced_default c)"
proof -
  from i obtain pre post where s: "names = pre @ c # post" by (meson split_list)
  from d s have np: "c \<notin> set pre" "c \<notin> set post" by auto
  from ok s obtain fr1 fr2 where 1: "for_each (clean_column lib) pre fr = Inr fr1"
    and 2: "clean_column lib fr1 c = Inr fr2"
    and 3: "for_each (clean_column lib) post fr2 = Inr fr'"
    by (auto simp: for_each_append split: sum.splits)
  have c1: "const_col fr1 c (default_cell c)"
  proof (rule for_each_invariant[OF 1, of "\<lambda>fr. const_col fr c (default_cell c)"])
    show "const_col fr c (default_cell c)" by (rule c)
  next
    fix x a b
    assume "x \<in> set pre" "const_col a c (default_cell c)" "clean_column lib a x = Inr b"
    with np show "const_col b c (default_cell c)"
      using clean_column_other[of a c "default_cell c" x lib b] by auto
  qed
  from clean_column_default[OF c1 2] have c2: "const_col fr2 c (coerced_default c)" .
  show ?thesis
  proof (rule for_each_invariant[OF 3, of "\<lambda>fr. const_col fr c (coerced_default c)"])
    show "const_col fr2 c (coerced_default c)" by (rule c2)
  next
    fix x a b
    assume "x \<in> set post" "const_col a c (coerced_default c)" "clean_column lib a x = Inr b"
    with np show "const_col b c (coerced_default c)"
      using clean_column_other[of a c "coerced_default c" x lib b] by auto
  qed
qed

text \<open>The repair of the date and of the time\<close>

lemma repair_date_const:
  assumes "const_col fr c v"
  shows "const_col (repair_date lib fr) c
           (if c = U ''payment_date'' then CStr (parse_date_robust_and_format lib v) else v)"
proof (cases "c = U ''payment_date''")
  case True
  from assms have g: "frame_get fr c = Some (replicate (nrows fr) v)" and n: "0 < nrows fr"
    by (simp_all add: const_col_def)
  from True g have "repair_date lib fr
      = loc_set_series fr c (replicate (nrows fr) (CStr (parse_date_robust_and_format lib v)))"
    by (simp add: repair_date_def)
  with n True show ?thesis by (simp add: series_same)
next
  case False
  then show ?thesis
    using assms by (auto simp: repair_date_def series_other split: option.splits)
qed

lemma repair_time_const:
  assumes "const_col fr c v" and "repair_time u fr = Inr fr'"
  shows "const_col fr' c
           (if c = U ''payment_time'' then CStr (format_time_string_for_storage u v) else v)"
proof (cases "c = U ''payment_time''")
  case True
  from assms have g: "frame_get fr c = Some (replicate (nrows fr) v)" and n: "0 < nrows fr"
    by (simp_all add: const_col_def)
  from True g assms(2) have "fr'
      = loc_set_series fr c (replicate (nrows fr) (CStr (format_time_string_for_storage u v)))"
    by (simp add: repair_time_def)
  with n True show ?thesis by (simp add: series_same)
next
  case False
  show ?thesis
  proof (cases "frame_get fr (U ''payment_time'')")
    case None
    with assms(2) have "loc_set_scalar fr (U ''payment_time'') (CStr (U ''00:00:00'')) = Inr fr'"
      by (simp add: repair_time_def)
    from scalar_other[OF assms(1) _ this] False show ?thesis by auto
  next
    case (Some vals)
    with assms(2) have "fr' = loc_set_series fr (U ''payment_time'')
        (map (\<lambda>c. CStr (format_time_string_for_storage u c)) vals)"
      by (simp add: repair_time_def)
    with series_other[OF assms(1)] False show ?thesis by auto
  qed
qed

text \<open>The selection, the last loop and the rows\<close>

lemma map_of_map_filter:
  "c \<in> set names \<Longrightarrow>
   map_of (List.map_filter (\<lambda>c. map_option (Pair c) (g c)) names) c = g c"
proof (induction names)
  case Nil
  then show ?case by simp
next
  case (Cons a names)
  show ?case
  proof (cases "a = c")
    case True
    show ?thesis
    proof (cases "g c")
      case None
      have "\<And>xs. map_of (List.map_filter (\<lambda>c. map_option (Pair c) (g c)) xs) c = None"
      proof -
        fix xs show "map_of (List.map_filter (\<lambda>c. map_option (Pair c) (g c)) xs) c = None"
          using None by (induction xs) (auto simp: List.map_filter_simps split: option.splits)
      qed
      from this[of "a # names"] this[of names] None True show ?thesis by simp
    next
      case (Some vs)
      with True show ?thesis by (simp add: List.map_filter_simps)
    qed
  next
    case False
    with Cons show ?thesis by (cases "g a") (auto simp: List.map_filter_simps)
  qed
qed

lemma select_const:
  "const_col fr c v \<Longrightarrow> c \<in> set names \<Longrightarrow> const_col (select_columns fr names) c v"
  by (simp add: const_col_def select_columns_def frame_get_def map_of_map_filter)

lemma ensure_final_const:
  "const_col fr c v \<Longrightarrow> ensure_final fr col = Inr fr' \<Longrightarrow> const_col fr' c v"
  by (cases "col = c") (auto simp: ensure_final_def const_has scalar_other split: if_splits)

lemma last_loop_const:
  "for_each ensure_final names fr = Inr fr' \<Longrightarrow> const_col fr c v \<Longrightarrow> const_col fr' c v"
  by (rule for_each_invariant[of ensure_final names fr fr' "\<lambda>fr. const_col fr c v"])
     (auto intro: ensure_final_const)

lemma all_or_error_Inr:
  "all_or_error xs = Inr ys \<Longrightarrow> xs = map Inr ys"
proof (induction xs arbitrary: ys rule: all_or_error.induct)
  case 1
  then show ?case by simp
next
  case (2 e xs)
  then show ?case by simp
next
  case (3 x xs)
  then show ?case by (auto split: sum.splits)
qed

lemma columns_in_order_nth:
  assumes "columns_in_order fr names = Inr cvs"
  shows "length cvs = length names \<and> (\<forall>j < length names. frame_get fr (names ! j) = Some (cvs ! j))"
proof -
  from all_or_error_Inr[OF assms[unfolded columns_in_order_def]]
  have e: "map (\<lambda>c. case frame_get fr c of None \<Rightarrow> Inl KeyError | Some vals \<Rightarrow> Inr vals) names
           = map Inr cvs" .
  then have l: "length cvs = length names" by (metis length_map)
  have "frame_get fr (names ! j) = Some (cvs ! j)" if "j < length names" for j
  proof -
    from e that l have "(case frame_get fr (names ! j) of None \<Rightarrow> Inl KeyError | Some vals \<Rightarrow> Inr vals)
        = (Inr (cvs ! j) :: error + cell list)"
      by (metis nth_map)
    then show ?thesis by (auto split: option.splits)
  qed
  with l show ?thesis by blast
qed

lemma values_tolist_const:
  assumes v: "values_tolist fr names = Inr rs" and c: "const_col fr c v"
    and d: "distinct names" and i: "c \<in> set names"
  shows "rs \<noteq> [] \<and> (\<forall>row \<in> set rs. map_of (zip names row) c = Some v)"
proof -
  from v obtain cvs where cv: "columns_in_order fr names = Inr cvs"
    and rs: "rs = map (\<lambda>i. map (\<lambda>vals. vals ! i) cvs) [0..<nrows fr]"
    by (auto simp: values_tolist_def split: sum.splits)
  from columns_in_order_nth[OF cv] have l: "length cvs = length names"
    and g: "\<And>j. j < length names \<Longrightarrow> frame_get fr (names ! j) = Some (cvs ! j)" by auto
  from i obtain j where j: "j < length names" "names ! j = c" by (auto simp: in_set_conv_nth)
  from c have n: "0 < nrows fr" and gc: "frame_get fr c = Some (replicate (nrows fr) v)"
    by (simp_all add: const_col_def)
  from g[OF j(1)] j(2) gc have cj: "cvs ! j = replicate (nrows fr) v" by simp
  have "map_of (zip names row) c = Some v" if "row \<in> set rs" for row
  proof -
    from that rs obtain k where k: "k < nrows fr" "row = map (\<lambda>vals. vals ! k) cvs" by auto
    have "map_of (zip names row) (names ! j) = Some (row ! j)"
      using d l j(1) k(2) by (intro map_of_zip_nth) simp_all
    moreover have "row ! j = v" using k l j(1) cj by simp
    ultimately show ?thesis using j(2) by simp
  qed
  moreover have "rs \<noteq> []" using rs n by simp
  ultimately show ?thesis by blast
qed

text \<open>The whole transformation\<close>

lemma transform_missing_column:
  assumes t: "transform u lib df column_mapping = Inr rs"
    and d: "distinct (map snd column_mapping)"
    and i: "(k, c) \<in> set column_mapping"
    and m: "normalized_df_columns_map u (map fst (fcols df)) (normalize_column_name u k) = None"
  shows "rs \<noteq> [] \<and> (\<forall>row \<in> set rs. row_value column_mapping row c = Some (stored_default u lib c))"
proof -
  let ?names = "map snd column_mapping"
  from t obtain df1 where
    1: "for_each (map_column u df) column_mapping empty_df = Inr df1"
    by (cases "for_each (map_column u df) column_mapping empty_df") (simp_all add: transform_def)
  from t 1 obtain df2 where
    2: "for_each ensure_column ?names df1 = Inr df2"
    by (cases "for_each ensure_column ?names df1") (simp_all add: transform_def)
  from t 1 2 obtain df3 where
    3: "for_each (clean_column lib) ?names df2 = Inr df3"
    by (cases "for_each (clean_column lib) ?names df2") (simp_all add: transform_def)
  from t 1 2 3 obtain df4 where
    4: "repair_time u (repair_date lib df3) = Inr df4"
    by (cases "repair_time u (repair_date lib df3)") (simp_all add: transform_def)
  from t 1 2 3 4 obtain fin where
    5: "for_each ensure_final ?names (select_columns df4 ?names) = Inr fin"
    by (cases "for_each ensure_final ?names (select_columns df4 ?names)")
       (simp_all add: transform_def)
  from t 1 2 3 4 5 have
    6: "values_tolist fin ?names = Inr rs"
    by (simp add: transform_def)
  from i have cn: "c \<in> set ?names" by force
  have c1: "const_col df1 c (default_cell c)" by (rule first_loop_default[OF 1 d i m])
  have c2: "const_col df2 c (default_cell c)" by (rule second_loop_const[OF 2 c1])
  have c3: "const_col df3 c (coerced_default c)" by (rule third_loop_default[OF 3 d cn c2])
  have ne: "U ''payment_date'' \<noteq> U ''payment_time''" by (simp add: U_def)
  have c4: "const_col df4 c (stored_default u lib c)"
  proof (cases "c = U ''payment_date''")
    case True
    with repair_time_const[OF repair_date_const[OF c3, of lib] 4] ne show ?thesis
      by (simp add: stored_default_def)
  next
    case False
    note nd = False
    show ?thesis
    proof (cases "c = U ''payment_time''")
      case True
      with repair_time_const[OF repair_date_const[OF c3, of lib] 4] ne show ?thesis
        by (simp add: stored_default_def)
    next
      case False
      with nd repair_time_const[OF repair_date_const[OF c3, of lib] 4] show ?thesis
        by (simp add: stored_default_def)
    qed
  qed
  have c5: "const_col fin c (stored_default u lib c)"
    by (rule last_loop_const[OF 5 select_const[OF c4 cn]])
  from values_tolist_const[OF 6 c5 d cn] show ?thesis by (simp add: row_value_def)
qed

end
